theory Spec2Isabelle
  imports Main "HOL-Library.Word"
begin

unbundle bit_operations_syntax

section \<open>The disk writer of the Raft library (uv_file.c) and raft_leader\<close>

text \<open>
  The file handle \<open>struct uvFile\<close>, its create and write requests, and every function
  of \<open>src/uv_file.c\<close> are embedded as state-passing functions on a \<open>world\<close>: the
  handle, the request objects it points to, what the kernel and the libuv thread pool
  hold for it, and the trace of system calls and callbacks made so far. What a system
  call returns is an argument of the function that makes the call. A failed \<open>assert\<close>,
  a do-while loop the kernel never lets end, a read outside an array and a call through
  a NULL function pointer are results of their own.
\<close>

subsection \<open>Constants of the system headers\<close>

text \<open>The Linux values of the constants that uv_file.c takes from the system headers.\<close>

definition EINTR :: int where "EINTR = 4"
definition EIO :: int where "EIO = 5"
definition EAGAIN :: int where "EAGAIN = 11"
definition EOPNOTSUPP :: int where "EOPNOTSUPP = 95"
definition UV_ENOMEM :: int where "UV_ENOMEM = - 12"
definition UV_ECANCELED :: int where "UV_ECANCELED = - 125"

definition IOCB_CMD_PWRITEV :: nat where "IOCB_CMD_PWRITEV = 8"
definition IOCB_FLAG_RESFD :: "32 word" where "IOCB_FLAG_RESFD = 1"
definition RWF_HIPRI :: "32 word" where "RWF_HIPRI = 1"
definition RWF_DSYNC :: "32 word" where "RWF_DSYNC = 2"
definition RWF_NOWAIT :: "32 word" where "RWF_NOWAIT = 8"

definition O_WRONLY :: "32 word" where "O_WRONLY = 1"
definition O_CREAT :: "32 word" where "O_CREAT = 64"
definition O_EXCL :: "32 word" where "O_EXCL = 128"
definition O_DSYNC :: "32 word" where "O_DSYNC = 4096"
definition UV_READABLE :: "32 word" where "UV_READABLE = 1"

text \<open>
  What is fixed when uv_file.c is compiled: which of the per-request flags the kernel
  headers define (the \<open>#if defined(RWF_...)\<close> blocks), and \<open>osDirname\<close> and
  \<open>OS_MAX_PATH_LEN\<close> of os.h.
\<close>

record config =
  has_RWF_HIPRI :: bool
  has_RWF_DSYNC :: bool
  has_RWF_NOWAIT :: bool
  osDirname :: "string \<Rightarrow> string"
  OS_MAX_PATH_LEN :: nat

subsection \<open>Data\<close>

text \<open>State codes: \<open>enum { CREATING = 1, READY, ERRORED, CLOSED }\<close>; the field is an int.\<close>

definition CREATING :: int where "CREATING = 1"
definition READY :: int where "READY = 2"
definition ERRORED :: int where "ERRORED = 3"
definition CLOSED :: int where "CLOSED = 4"

text \<open>The libuv poll handle, as far as uv_file.c uses it.\<close>

datatype poller = Poll_init | Poll_started | Poll_closing | Poll_closed

fun uv_is_closing :: "poller \<Rightarrow> bool" where
  "uv_is_closing Poll_closing = True"
| "uv_is_closing Poll_closed = True"
| "uv_is_closing _ = False"

text \<open>\<open>struct io_event\<close>: \<open>data\<close> is the address of the write request, \<open>res\<close> its result.\<close>

record io_event =
  ev_data :: nat
  ev_res :: int

record iocb =
  aio_data :: nat
  aio_rw_flags :: "32 word"
  aio_lio_opcode :: nat
  aio_reqprio :: int
  aio_fildes :: int
  aio_buf :: nat
  aio_nbytes :: nat
  aio_offset :: nat
  aio_flags :: "32 word"
  aio_resfd :: int

definition zero_iocb :: iocb where
  "zero_iocb = \<lparr>aio_data = 0, aio_rw_flags = 0, aio_lio_opcode = 0, aio_reqprio = 0,
     aio_fildes = 0, aio_buf = 0, aio_nbytes = 0, aio_offset = 0, aio_flags = 0,
     aio_resfd = 0\<rparr>"

text \<open>
  \<open>struct uvFile\<close>. Pointers are addresses (0 is NULL); \<open>write_queue\<close> is the queue of
  in-flight write requests, oldest first; \<open>events\<close> is the array of re-usable
  event objects (empty when the pointer is NULL).
\<close>

record uvFile =
  fd :: int
  direct :: bool
  async :: bool
  event_fd :: int
  event_poller :: poller
  ctx :: nat
  events :: "io_event list"
  n_events :: nat
  write_queue :: "nat list"
  closing :: bool
  close_cb :: nat
  state :: int

text \<open>\<open>struct uvFileCreate\<close> and \<open>struct uvFileWrite\<close>; \<open>cb\<close> is a function pointer.\<close>

record uvFileCreate =
  c_cb :: nat
  c_path :: string
  c_size :: nat
  c_status :: int

record uvFileWrite =
  w_cb :: nat
  w_iocb :: iocb
  w_status :: int

text \<open>What is handed to \<open>uv_queue_work\<close>: a create or a write request.\<close>

datatype work = Create_work | Write_work nat

text \<open>System calls, libuv calls and callbacks, in the order the code makes them.\<close>

datatype event =
    Sys_posix_fallocate int nat nat
  | Sys_fsync int
  | Os_SyncDir string
  | Os_SetDirectIO int
  | Sys_open string "32 word"
  | Sys_io_setup nat
  | Sys_io_submit nat iocb
  | Sys_io_getevents nat nat
  | Sys_io_destroy nat
  | Sys_read_eventfd int
  | Sys_close int
  | Sys_unlink string
  | Sys_calloc nat
  | Sys_free
  | Uv_poll_start
  | Uv_close
  | Uv_queue_work work
  | Create_cb int
  | Write_cb nat int
  | Close_cb

text \<open>
  The world of one file handle: the handle \<open>f\<close>, its create request, the write requests
  by address, the requests the kernel holds for the handle's AIO context (\<open>kaio\<close>), the
  work the thread pool holds (\<open>pool\<close>: queued or running; \<open>finished\<close>: the work function
  has returned and the after-work callback has not run yet), and the trace.
\<close>

record world =
  f :: uvFile
  creq :: uvFileCreate
  wreq :: "nat \<Rightarrow> uvFileWrite"
  kaio :: "nat list"
  pool :: "work list"
  finished :: "work list"
  trace :: "event list"

datatype failure = Assert_failed | Never_returns | Out_of_bounds | Null_call

definition emit :: "event list \<Rightarrow> world \<Rightarrow> world" where
  "emit es w = w\<lparr>trace := trace w @ es\<rparr>"

subsection \<open>uv_translate_sys_error\<close>

definition uv_translate_sys_error :: "int \<Rightarrow> int" where
  "uv_translate_sys_error sys_errno = (if sys_errno \<le> 0 then sys_errno else - sys_errno)"

subsection \<open>createWorkCb\<close>

text \<open>What the system calls of \<open>createWorkCb\<close> return (\<open>fsync\<close>: value and errno).\<close>

record create_env =
  posix_fallocate_rv :: int
  fsync_rv :: int
  fsync_errno :: int
  osSyncDir_rv :: int
  osSetDirectIO_rv :: int

definition create_status :: "int \<Rightarrow> world \<Rightarrow> world" where
  "create_status s w = w\<lparr>creq := (creq w)\<lparr>c_status := s\<rparr>\<rparr>"

definition createWorkCb :: "config \<Rightarrow> create_env \<Rightarrow> world \<Rightarrow> failure + world" where
  "createWorkCb cfg env w =
    (if state (f w) \<noteq> CREATING then Inl Assert_failed
     else
       let w1 = emit [Sys_posix_fallocate (fd (f w)) 0 (c_size (creq w))] w in
       if posix_fallocate_rv env \<noteq> 0
       then Inr (create_status (uv_translate_sys_error (posix_fallocate_rv env)) w1)
       else
         let w2 = emit [Sys_fsync (fd (f w))] w1 in
         if fsync_rv env = - 1
         then Inr (create_status (uv_translate_sys_error (fsync_errno env)) w2)
         else
           let w3 = emit [Os_SyncDir (osDirname cfg (c_path (creq w)))] w2 in
           if osSyncDir_rv env \<noteq> 0
           then Inr (create_status (uv_translate_sys_error (osSyncDir_rv env)) w3)
           else if direct (f w)
           then
             let w4 = emit [Os_SetDirectIO (fd (f w))] w3 in
             if osSetDirectIO_rv env \<noteq> 0
             then Inr (create_status (uv_translate_sys_error (osSetDirectIO_rv env)) w4)
             else Inr (create_status 0 w4)
           else Inr (create_status 0 w3))"

subsection \<open>writeFinish, maybeClosed, pollCloseCb\<close>

definition set_status :: "nat \<Rightarrow> int \<Rightarrow> world \<Rightarrow> world" where
  "set_status r s w = w\<lparr>wreq := (wreq w)(r := (wreq w r)\<lparr>w_status := s\<rparr>)\<rparr>"

text \<open>
  \<open>QUEUE_REMOVE\<close> of the request, then its callback with its status. \<open>writeFinish\<close> calls
  \<open>req->cb\<close> without a check, and \<open>uvFileWrite\<close> stores the pointer it is given: with a
  NULL callback the call fails.
\<close>

definition write_finished :: "nat \<Rightarrow> world \<Rightarrow> world" where
  "write_finished r w =
     emit [Write_cb r (w_status (wreq w r))]
       (w\<lparr>f := (f w)\<lparr>write_queue := remove1 r (write_queue (f w))\<rparr>\<rparr>)"

definition writeFinish :: "nat \<Rightarrow> world \<Rightarrow> failure + world" where
  "writeFinish r w =
     (if w_cb (wreq w r) = 0 then Inl Null_call else Inr (write_finished r w))"

definition maybeClosed :: "world \<Rightarrow> failure + world" where
  "maybeClosed w =
    (if state (f w) = CLOSED then Inl Assert_failed
     else if \<not> closing (f w) then Inr w
     else if state (f w) = CREATING then Inr w
     else if write_queue (f w) \<noteq> [] then Inr w
     else if \<not> uv_is_closing (event_poller (f w))
     then Inr (emit [Uv_close] (w\<lparr>f := (f w)\<lparr>event_poller := Poll_closing\<rparr>\<rparr>))
     else Inr w)"

text \<open>
  \<open>pollCloseCb\<close>, with what \<open>close\<close> and \<open>io_destroy\<close> return. libuv calls it once the
  poll handle is closed.
\<close>

definition pollCloseCb :: "int \<Rightarrow> int \<Rightarrow> world \<Rightarrow> failure + world" where
  "pollCloseCb close_rv io_destroy_rv w =
    (if \<not> closing (f w) then Inl Assert_failed
     else if state (f w) = CLOSED then Inl Assert_failed
     else if write_queue (f w) \<noteq> [] then Inl Assert_failed
     else
       let w1 = emit [Sys_close (event_fd (f w))] w in
       if close_rv \<noteq> 0 then Inl Assert_failed
       else
         let w2 = (if ctx (f w) \<noteq> 0 then emit [Sys_io_destroy (ctx (f w))] w1 else w1) in
         if ctx (f w) \<noteq> 0 \<and> io_destroy_rv \<noteq> 0 then Inl Assert_failed
         else
           let w3 = emit [Sys_free] w2;
               w4 = w3\<lparr>f := (f w3)\<lparr>state := CLOSED\<rparr>\<rparr>
           in Inr (if close_cb (f w) \<noteq> 0 then emit [Close_cb] w4 else w4))"

subsection \<open>writeWorkCb and writeAfterWorkCb\<close>

text \<open>
  A call of \<open>io_getevents\<close> fails with an errno or stores events. The do-while loop
  around it calls again while the call fails with EINTR; it does not end when the kernel
  answers nothing else.
\<close>

datatype getevents_ret = Ge_fail int | Ge_events "io_event list"

fun getevents_retry :: "getevents_ret list \<Rightarrow> getevents_ret option" where
  "getevents_retry [] = None"
| "getevents_retry (Ge_fail e # rest) =
     (if e = EINTR then getevents_retry rest else Some (Ge_fail e))"
| "getevents_retry (Ge_events evs # rest) = Some (Ge_events evs)"

record work_env =
  io_setup_rv :: int
  io_setup_errno :: int
  io_setup_ctx :: nat
  io_submit_rv :: int
  io_submit_errno :: int
  io_getevents_rets :: "getevents_ret list"
  io_destroy_rv :: int
  io_destroy_errno :: int

definition writeWorkCb :: "work_env \<Rightarrow> nat \<Rightarrow> world \<Rightarrow> failure + world" where
  "writeWorkCb env r w =
    (if state (f w) \<noteq> READY then Inl Assert_failed
     else
       let many = (1 < n_events (f w));
           w1 = (if many then emit [Sys_io_setup 1] w else w)
       in
       if many \<and> io_setup_rv env = - 1
       then Inr (set_status r (uv_translate_sys_error (io_setup_errno env)) w1)
       else
         let c = (if many then io_setup_ctx env else ctx (f w));
             w2 = emit [Sys_io_submit c (w_iocb (wreq w r))] w1
         in
         if io_submit_rv env = - 1
         then
           let w3 = (if many then emit [Sys_io_destroy c] w2 else w2);
               e = (if many \<and> io_destroy_rv env = - 1 then io_destroy_errno env
                    else io_submit_errno env)
           in Inr (set_status r (uv_translate_sys_error e) w3)
         else
           (case getevents_retry (io_getevents_rets env) of
              None \<Rightarrow> Inl Never_returns
            | Some (Ge_fail e) \<Rightarrow> Inl Assert_failed
            | Some (Ge_events evs) \<Rightarrow>
                (case evs of
                   [ev] \<Rightarrow>
                     let w3 = emit [Sys_io_getevents c 1] w2;
                         w4 = (if many then emit [Sys_io_destroy c] w3 else w3)
                     in Inr (set_status r (ev_res ev) w4)
                 | _ \<Rightarrow> Inl Assert_failed)))"

definition writeAfterWorkCb :: "int \<Rightarrow> nat \<Rightarrow> world \<Rightarrow> failure + world" where
  "writeAfterWorkCb status r w =
    (if status \<noteq> 0 then Inl Assert_failed
     else if state (f w) \<noteq> READY then Inl Assert_failed
     else
       let w1 = (if closing (f w) then set_status r UV_ECANCELED w else w)
       in (case writeFinish r w1 of Inl e \<Rightarrow> Inl e | Inr w2 \<Rightarrow> maybeClosed w2))"

subsection \<open>writePollCb\<close>

record poll_env =
  read_rv :: int
  read_errno :: int
  poll_getevents_rets :: "getevents_ret list"
  uv_queue_work_rv :: "nat \<Rightarrow> int"

text \<open>The fall back to the thread pool: what is cleared in the request's \<open>iocb\<close>.\<close>

definition clear_nowait :: "iocb \<Rightarrow> iocb" where
  "clear_nowait cb =
     cb\<lparr>aio_flags := aio_flags cb AND NOT IOCB_FLAG_RESFD,
        aio_resfd := 0,
        aio_rw_flags := aio_rw_flags cb AND NOT RWF_NOWAIT\<rparr>"

definition fall_back :: "nat \<Rightarrow> world \<Rightarrow> world" where
  "fall_back r w = w\<lparr>wreq := (wreq w)(r := (wreq w r)\<lparr>w_iocb := clear_nowait (w_iocb (wreq w r))\<rparr>)\<rparr>"

definition queue_work :: "work \<Rightarrow> world \<Rightarrow> world" where
  "queue_work x w = w\<lparr>pool := pool w @ [x]\<rparr>"

text \<open>
  The \<open>for\<close> loop over the fetched events. \<open>rv\<close> is the C variable of that name: the
  loop compares \<open>i\<close> with \<open>(unsigned)rv\<close>, and a failed \<open>uv_queue_work\<close> assigns to it.
  The result says whether the function returned from inside the loop.
\<close>

function writePollCb_loop ::
  "config \<Rightarrow> poll_env \<Rightarrow> nat \<Rightarrow> int \<Rightarrow> world \<Rightarrow> failure + (bool \<times> world)" where
  "writePollCb_loop cfg env i rv w =
    (if i < unat (word_of_int rv :: 32 word) then
       (if length (events (f w)) \<le> i then Inl Out_of_bounds
        else
          let ev = events (f w) ! i; r = ev_data ev in
          if closing (f w)
          then (case writeFinish r (set_status r UV_ECANCELED w) of
                  Inl e \<Rightarrow> Inl e
                | Inr w1 \<Rightarrow> writePollCb_loop cfg env (i + 1) rv w1)
          else if has_RWF_NOWAIT cfg \<and> ev_res ev = - EAGAIN
          then
            let w1 = emit [Uv_queue_work (Write_work r)] (fall_back r w);
                q = uv_queue_work_rv env r
            in
            if q \<noteq> 0
            then (case writeFinish r (set_status r q w1) of
                    Inl e \<Rightarrow> Inl e
                  | Inr w2 \<Rightarrow> writePollCb_loop cfg env (i + 1) q w2)
            else Inr (True, queue_work (Write_work r) w1)
          else (case writeFinish r (set_status r (ev_res ev) w) of
                  Inl e \<Rightarrow> Inl e
                | Inr w1 \<Rightarrow> writePollCb_loop cfg env (i + 1) rv w1))
     else Inr (False, w))"
  by pat_completeness auto
termination
proof -
  have bound: "unat (word_of_int rv :: 32 word) < 4294967296" for rv :: int
    using unsigned_less [where ?'a = nat and w = "word_of_int rv :: 32 word"] by simp
  have less: "4294967295 - i < 4294967296 - i" if "i < unat (word_of_int rv :: 32 word)"
    for i :: nat and rv :: int
    using that bound [of rv] by simp
  show ?thesis
    by (relation "measure (\<lambda>(cfg, env, i, rv, w). 2 ^ 32 - i)") (simp_all add: less)
qed

declare writePollCb_loop.simps [simp del]

text \<open>
  What \<open>io_getevents\<close> stores at the start of the events array (which keeps its size),
  and takes from the kernel.
\<close>

definition store_events :: "io_event list \<Rightarrow> world \<Rightarrow> world" where
  "store_events evs w =
     w\<lparr>f := (f w)\<lparr>events := take (length (events (f w)))
                                   (evs @ drop (length evs) (events (f w)))\<rparr>,
       kaio := filter (\<lambda>r. r \<notin> set (map ev_data evs)) (kaio w)\<rparr>"

definition writePollCb :: "config \<Rightarrow> poll_env \<Rightarrow> int \<Rightarrow> 32 word \<Rightarrow> world \<Rightarrow> failure + world" where
  "writePollCb cfg env status evmask w =
    (if event_fd (f w) < 0 then Inl Assert_failed
     else if state (f w) \<noteq> READY then Inl Assert_failed
     else if status \<noteq> 0 then Inl Assert_failed
     else if evmask AND UV_READABLE = 0 then Inl Assert_failed
     else
       let w1 = emit [Sys_read_eventfd (event_fd (f w))] w in
       if read_rv env \<noteq> 8
       then (if read_errno env \<noteq> EAGAIN then Inl Assert_failed else Inr w1)
       else
         (case getevents_retry (poll_getevents_rets env) of
            None \<Rightarrow> Inl Never_returns
          | Some (Ge_fail e) \<Rightarrow> Inl Assert_failed
          | Some (Ge_events evs) \<Rightarrow>
              if evs = [] then Inl Assert_failed
              else
                let w2 = store_events evs (emit [Sys_io_getevents (ctx (f w)) (n_events (f w))] w1)
                in
                (case writePollCb_loop cfg env 0 (int (length evs)) w2 of
                   Inl x \<Rightarrow> Inl x
                 | Inr (True, w3) \<Rightarrow> Inr w3
                 | Inr (False, w3) \<Rightarrow> maybeClosed w3)))"

subsection \<open>createAfterWorkCb\<close>

definition createAfterWorkCb :: "int \<Rightarrow> int \<Rightarrow> world \<Rightarrow> failure + world" where
  "createAfterWorkCb uv_poll_start_rv status w =
    (if status \<noteq> 0 then Inl Assert_failed
     else
       let w1 =
             (if closing (f w)
              then create_status UV_ECANCELED (emit [Sys_unlink (c_path (creq w))] w)
              else if c_status (creq w) = 0
              then
                (if uv_poll_start_rv \<noteq> 0
                 then emit [Sys_io_destroy (ctx (f w)), Sys_close (event_fd (f w)),
                            Sys_close (fd (f w)), Sys_unlink (c_path (creq w))]
                        (create_status uv_poll_start_rv (emit [Uv_poll_start] w))
                 else emit [Uv_poll_start] (w\<lparr>f := (f w)\<lparr>event_poller := Poll_started\<rparr>\<rparr>))
              else w);
           w2 = w1\<lparr>f := (f w1)\<lparr>state := (if c_status (creq w1) = 0 then READY else ERRORED)\<rparr>\<rparr>;
           w3 = (if c_cb (creq w2) \<noteq> 0 then emit [Create_cb (c_status (creq w2))] w2 else w2)
       in maybeClosed w3)"

subsection \<open>uvFileInit\<close>

record init_env =
  eventfd_rv :: int
  eventfd_errno :: int
  uv_poll_init_rv :: int

text \<open>The call writes every field of the handle but \<open>state\<close>, which keeps what was there.\<close>

definition uvFileInit :: "init_env \<Rightarrow> bool \<Rightarrow> bool \<Rightarrow> world \<Rightarrow> failure + int \<times> world" where
  "uvFileInit env direct' async' w =
    (let w1 = w\<lparr>f := (f w)\<lparr>fd := - 1, direct := direct', async := async',
                             event_fd := eventfd_rv env\<rparr>\<rparr>
     in
     if eventfd_rv env < 0
     then (if uv_translate_sys_error (eventfd_errno env) = 0 then Inl Assert_failed
           else Inr (uv_translate_sys_error (eventfd_errno env), w1))
     else if uv_poll_init_rv env \<noteq> 0
     then Inr (uv_poll_init_rv env, emit [Sys_close (eventfd_rv env)] w1)
     else Inr (0, w1\<lparr>f := (f w1)\<lparr>event_poller := Poll_init, ctx := 0, events := [],
                                   n_events := 0, write_queue := [], closing := False,
                                   close_cb := 0\<rparr>\<rparr>))"

subsection \<open>uvFileCreate\<close>

record open_env =
  open_rv :: int
  open_errno :: int
  setup_rv :: int
  setup_errno :: int
  setup_ctx :: nat
  calloc_fails :: bool
  create_queue_work_rv :: int

definition open_flags :: "config \<Rightarrow> 32 word" where
  "open_flags cfg =
     (let flags = O_WRONLY OR O_CREAT OR O_EXCL
      in if \<not> has_RWF_DSYNC cfg then flags OR O_DSYNC else flags)"

text \<open>The exits \<open>err_after_open\<close> and \<open>err\<close> of \<open>uvFileCreate\<close>.\<close>

definition create_err :: "int \<Rightarrow> world \<Rightarrow> failure + int \<times> world" where
  "create_err rv w =
     (if rv = 0 then Inl Assert_failed else Inr (rv, w\<lparr>f := (f w)\<lparr>state := 0\<rparr>\<rparr>))"

definition create_err_after_open :: "string \<Rightarrow> int \<Rightarrow> world \<Rightarrow> failure + int \<times> world" where
  "create_err_after_open path rv w =
     create_err rv (emit [Sys_close (fd (f w)), Sys_unlink path] (w\<lparr>f := (f w)\<lparr>fd := - 1\<rparr>\<rparr>))"

definition zero_event :: io_event where
  "zero_event = \<lparr>ev_data = 0, ev_res = 0\<rparr>"

definition uvFileCreate ::
  "config \<Rightarrow> open_env \<Rightarrow> string \<Rightarrow> nat \<Rightarrow> nat \<Rightarrow> nat \<Rightarrow> world \<Rightarrow> failure + int \<times> world" where
  "uvFileCreate cfg env path size' max_n_writes cb w =
    (if \<not> 0 < size' then Inl Assert_failed
     else if closing (f w) then Inl Assert_failed
     else if \<not> length path \<le> OS_MAX_PATH_LEN cfg then Inl Assert_failed
     else
       let w1 = emit [Sys_open path (open_flags cfg)]
                  (w\<lparr>f := (f w)\<lparr>state := CREATING, events := [], n_events := max_n_writes,
                                 fd := open_rv env\<rparr>\<rparr>)
       in
       if open_rv env = - 1 then create_err (uv_translate_sys_error (open_errno env)) w1
       else
         let w2 = emit [Sys_io_setup max_n_writes] w1 in
         if setup_rv env = - 1
         then create_err_after_open path (uv_translate_sys_error (setup_errno env)) w2
         else
           let w3 = emit [Sys_calloc max_n_writes] (w2\<lparr>f := (f w2)\<lparr>ctx := setup_ctx env\<rparr>\<rparr>) in
           if calloc_fails env
           then create_err_after_open path UV_ENOMEM
                  (emit [Sys_io_destroy (setup_ctx env)] (w3\<lparr>f := (f w3)\<lparr>ctx := 0\<rparr>\<rparr>))
           else
             let w4 = emit [Uv_queue_work Create_work]
                        (w3\<lparr>f := (f w3)\<lparr>events := replicate max_n_writes zero_event\<rparr>,
                            creq := \<lparr>c_cb = cb, c_path = path, c_size = size', c_status = 0\<rparr>\<rparr>)
             in
             if create_queue_work_rv env \<noteq> 0
             then create_err_after_open path (create_queue_work_rv env) w4
             else Inr (0, queue_work Create_work w4))"

subsection \<open>uvFileWrite\<close>

record write_env =
  submit_rv :: int
  submit_errno :: int
  write_queue_work_rv :: int

text \<open>The request as \<open>uvFileWrite\<close> fills it in before it submits it.\<close>

definition write_iocb :: "config \<Rightarrow> uvFile \<Rightarrow> nat \<Rightarrow> nat \<Rightarrow> nat \<Rightarrow> nat \<Rightarrow> iocb" where
  "write_iocb cfg h req bufs n offset =
    (let cb0 = zero_iocb\<lparr>aio_fildes := fd h, aio_lio_opcode := IOCB_CMD_PWRITEV,
                 aio_reqprio := 0, aio_buf := bufs, aio_nbytes := n, aio_offset := offset,
                 aio_data := req\<rparr>;
         cb1 = (if has_RWF_HIPRI cfg then cb0\<lparr>aio_rw_flags := aio_rw_flags cb0 OR RWF_HIPRI\<rparr>
                else cb0);
         cb2 = (if has_RWF_DSYNC cfg then cb1\<lparr>aio_rw_flags := aio_rw_flags cb1 OR RWF_DSYNC\<rparr>
                else cb1)
     in
     if has_RWF_NOWAIT cfg \<and> async h
     then cb2\<lparr>aio_flags := aio_flags cb2 OR IOCB_FLAG_RESFD, aio_resfd := event_fd h,
              aio_rw_flags := aio_rw_flags cb2 OR RWF_NOWAIT\<rparr>
     else cb2)"

text \<open>The exit \<open>err\<close> of \<open>uvFileWrite\<close>.\<close>

definition write_err :: "nat \<Rightarrow> int \<Rightarrow> world \<Rightarrow> failure + int \<times> world" where
  "write_err req rv w =
     (if rv = 0 then Inl Assert_failed
      else Inr (rv, w\<lparr>f := (f w)\<lparr>write_queue := remove1 req (write_queue (f w))\<rparr>\<rparr>))"

text \<open>The last part of \<open>uvFileWrite\<close>: \<open>io_submit\<close> is left to the thread pool.\<close>

definition write_in_threadpool :: "write_env \<Rightarrow> nat \<Rightarrow> world \<Rightarrow> failure + int \<times> world" where
  "write_in_threadpool env req w =
     (let w1 = emit [Uv_queue_work (Write_work req)] w in
      if write_queue_work_rv env \<noteq> 0 then write_err req (write_queue_work_rv env) w1
      else Inr (0, queue_work (Write_work req) w1))"

definition uvFileWrite ::
  "config \<Rightarrow> write_env \<Rightarrow> nat \<Rightarrow> nat \<Rightarrow> nat \<Rightarrow> nat \<Rightarrow> nat \<Rightarrow> world \<Rightarrow> failure + int \<times> world" where
  "uvFileWrite cfg env req bufs n offset cb w =
    (if closing (f w) then Inl Assert_failed
     else if state (f w) \<noteq> READY then Inl Assert_failed
     else if n_events (f w) = 1 \<and> write_queue (f w) \<noteq> [] then Inl Assert_failed
     else if \<not> 0 \<le> fd (f w) then Inl Assert_failed
     else if \<not> 0 \<le> event_fd (f w) then Inl Assert_failed
     else if ctx (f w) = 0 then Inl Assert_failed
     else if req = 0 then Inl Assert_failed
     else if bufs = 0 then Inl Assert_failed
     else if \<not> 0 < n then Inl Assert_failed
     else
       let w1 = w\<lparr>wreq := (wreq w)(req := (wreq w req)\<lparr>w_cb := cb,
                         w_iocb := write_iocb cfg (f w) req bufs n offset\<rparr>),
                   f := (f w)\<lparr>write_queue := write_queue (f w) @ [req]\<rparr>\<rparr>
       in
       if \<not> has_RWF_NOWAIT cfg
       then (if async (f w) then Inl Assert_failed else write_in_threadpool env req w1)
       else if async (f w)
       then
         let w2 = emit [Sys_io_submit (ctx (f w)) (w_iocb (wreq w1 req))] w1 in
         if submit_rv env \<noteq> - 1
         then (if submit_rv env \<noteq> 1 then Inl Assert_failed
               else Inr (0, w2\<lparr>kaio := kaio w2 @ [req]\<rparr>))
         else if submit_errno env = EOPNOTSUPP then Inl Assert_failed
         else if submit_errno env = EAGAIN
         then write_in_threadpool env req (fall_back req w2)
         else write_err req (uv_translate_sys_error (submit_errno env)) w2
       else write_in_threadpool env req w1)"

subsection \<open>uvFileClose\<close>

definition uvFileClose :: "int \<Rightarrow> nat \<Rightarrow> world \<Rightarrow> failure + world" where
  "uvFileClose close_rv cb w =
    (if closing (f w) then Inl Assert_failed
     else
       let w1 = w\<lparr>f := (f w)\<lparr>closing := True, close_cb := cb\<rparr>\<rparr> in
       if fd (f w) \<noteq> - 1
       then (if close_rv \<noteq> 0 then Inl Assert_failed
             else maybeClosed (emit [Sys_close (fd (f w))] w1))
       else maybeClosed w1)"

subsection \<open>raft_leader\<close>

text \<open>
  The fields of \<open>struct raft\<close> that \<open>raft_leader\<close> reads. The state codes are those of
  raft.h; an address is a C string or NULL (None).
\<close>

datatype raft_state_code = RAFT_UNAVAILABLE | RAFT_FOLLOWER | RAFT_CANDIDATE | RAFT_LEADER

record current_leader =
  leader_id :: "32 word"
  leader_address :: "string option"

record raft =
  raft_id :: "32 word"
  raft_address :: "string option"
  raft_state :: raft_state_code
  follower_state_current_leader :: current_leader

text \<open>The result is what the call stores through \<open>id\<close> and \<open>address\<close>.\<close>

fun raft_leader_of :: "raft_state_code \<Rightarrow> raft \<Rightarrow> 32 word \<times> string option" where
  "raft_leader_of RAFT_UNAVAILABLE r = (0, None)"
| "raft_leader_of RAFT_CANDIDATE r = (0, None)"
| "raft_leader_of RAFT_FOLLOWER r =
     (leader_id (follower_state_current_leader r),
      leader_address (follower_state_current_leader r))"
| "raft_leader_of RAFT_LEADER r = (raft_id r, raft_address r)"

definition raft_leader :: "raft \<Rightarrow> 32 word \<times> string option" where
  "raft_leader r = raft_leader_of (raft_state r) r"

subsection \<open>The configuration and the add-server change\<close>

text \<open>
  Modelled from the spec: the configuration of a Raft instance and the add-server
  membership change. configuration.c and membership.c are not among the sources; only the
  test that submits the change is (the test case \<open>add/non_voting\<close>). Section 3 of the
  spec: a configuration is an ordered set of servers, each with an id (unsigned 64-bit,
  nonzero, unique within the configuration), an address and a role among voter, non-voter
  and spare. Section 8, scenario 3: once the add-server change is applied, the leader's
  configuration has one more server, the last one, with the role non-voter.
\<close>

datatype role = Voter | Non_voter | Spare

record raft_server =
  server_id :: "64 word"
  server_address :: string
  server_role :: role

datatype configuration_error = Bad_id | Duplicate_id

definition configuration_add ::
  "64 word \<Rightarrow> string \<Rightarrow> role \<Rightarrow> raft_server list \<Rightarrow> configuration_error + raft_server list" where
  "configuration_add i a r c =
     (if i = 0 then Inl Bad_id
      else if i \<in> set (map server_id c) then Inl Duplicate_id
      else Inr (c @ [\<lparr>server_id = i, server_address = a, server_role = r\<rparr>]))"

definition add_server ::
  "64 word \<Rightarrow> string \<Rightarrow> raft_server list \<Rightarrow> configuration_error + raft_server list" where
  "add_server i a c = configuration_add i a Non_voter c"

definition three_voters :: "raft_server list" where
  "three_voters =
     [\<lparr>server_id = 1, server_address = ''1'', server_role = Voter\<rparr>,
      \<lparr>server_id = 2, server_address = ''2'', server_role = Voter\<rparr>,
      \<lparr>server_id = 3, server_address = ''3'', server_role = Voter\<rparr>]"

subsection \<open>Running one function after another\<close>

definition and_then :: "failure + world \<Rightarrow> (world \<Rightarrow> failure + 'a) \<Rightarrow> failure + 'a" where
  "and_then x g = (case x of Inl e \<Rightarrow> Inl e | Inr w \<Rightarrow> g w)"

definition world_of :: "failure + int \<times> world \<Rightarrow> failure + world" where
  "world_of x = (case x of Inl e \<Rightarrow> Inl e | Inr (rv, w) \<Rightarrow> Inr w)"

subsection \<open>The loop over the events, when uv_queue_work succeeds\<close>

text \<open>
  What \<open>writePollCb_loop\<close> does with the events still to be looked at, as long as
  \<open>uv_queue_work\<close> returns 0 (as libuv does for a work function that is not NULL).
\<close>

fun finish_events :: "config \<Rightarrow> io_event list \<Rightarrow> world \<Rightarrow> failure + bool \<times> world" where
  "finish_events cfg [] w = Inr (False, w)"
| "finish_events cfg (ev # evs) w =
     (if closing (f w)
      then (case writeFinish (ev_data ev) (set_status (ev_data ev) UV_ECANCELED w) of
              Inl e \<Rightarrow> Inl e
            | Inr w1 \<Rightarrow> finish_events cfg evs w1)
      else if has_RWF_NOWAIT cfg \<and> ev_res ev = - EAGAIN
      then Inr (True, queue_work (Write_work (ev_data ev))
                        (emit [Uv_queue_work (Write_work (ev_data ev))] (fall_back (ev_data ev) w)))
      else (case writeFinish (ev_data ev) (set_status (ev_data ev) (ev_res ev) w) of
              Inl e \<Rightarrow> Inl e
            | Inr w1 \<Rightarrow> finish_events cfg evs w1))"

subsection \<open>The reactor\<close>

text \<open>
  One handle driven by its client, the thread pool, the kernel and the libuv loop. An
  action is a call of the client (\<open>uvFileCreate\<close>, \<open>uvFileWrite\<close>, \<open>uvFileClose\<close>), a worker
  thread running a work function, or the loop running a callback; it carries what the
  system calls made in it return. An action is not possible (None) when libuv or the
  kernel would not start it, or when an assertion fails or a NULL callback is called in
  it. The client calls
  \<open>uvFileCreate\<close> at most once on a handle and does not pass a write request that is still
  queued; the kernel reports each request it holds once; \<open>uv_queue_work\<close> returns 0 in
  \<open>writePollCb\<close>.
\<close>

datatype action =
    Call_create open_env string nat nat nat
  | Call_write write_env nat nat nat nat nat
  | Call_close int nat
  | Work_create create_env
  | After_create int
  | Work_write work_env nat
  | After_write nat
  | Poll_ready int int "getevents_ret list"
  | Close_poller int int

fun opt :: "failure + world \<Rightarrow> world option" where
  "opt (Inl e) = None"
| "opt (Inr w) = Some w"

fun is_open :: "event \<Rightarrow> bool" where
  "is_open (Sys_open p fl) = True"
| "is_open _ = False"

definition created :: "world \<Rightarrow> bool" where
  "created w = list_ex is_open (trace w)"

definition work_done :: "work \<Rightarrow> world \<Rightarrow> world" where
  "work_done x w = w\<lparr>pool := remove1 x (pool w), finished := finished w @ [x]\<rparr>"

definition after_work :: "work \<Rightarrow> world \<Rightarrow> world" where
  "after_work x w = w\<lparr>finished := remove1 x (finished w)\<rparr>"

definition kernel_ok :: "getevents_ret list \<Rightarrow> world \<Rightarrow> bool" where
  "kernel_ok rets w =
     (case getevents_retry rets of
        Some (Ge_events evs) \<Rightarrow>
          distinct (map ev_data evs) \<and> set (map ev_data evs) \<subseteq> set (kaio w) \<and>
          length evs \<le> length (events (f w)) \<and> length evs < 2 ^ 32
      | _ \<Rightarrow> True)"

fun react :: "config \<Rightarrow> action \<Rightarrow> world \<Rightarrow> world option" where
  "react cfg (Call_create env path size' max_n_writes cb) w =
     (if created w then None
      else opt (world_of (uvFileCreate cfg env path size' max_n_writes cb w)))"
| "react cfg (Call_write env req bufs n offset cb) w =
     (if req \<in> set (write_queue (f w)) then None
      else opt (world_of (uvFileWrite cfg env req bufs n offset cb w)))"
| "react cfg (Call_close close_rv cb) w = opt (uvFileClose close_rv cb w)"
| "react cfg (Work_create env) w =
     (if Create_work \<in> set (pool w) then opt (createWorkCb cfg env (work_done Create_work w))
      else None)"
| "react cfg (After_create uv_poll_start_rv) w =
     (if Create_work \<in> set (finished w)
      then opt (createAfterWorkCb uv_poll_start_rv 0 (after_work Create_work w))
      else None)"
| "react cfg (Work_write env r) w =
     (if Write_work r \<in> set (pool w) then opt (writeWorkCb env r (work_done (Write_work r) w))
      else None)"
| "react cfg (After_write r) w =
     (if Write_work r \<in> set (finished w)
      then opt (writeAfterWorkCb 0 r (after_work (Write_work r) w))
      else None)"
| "react cfg (Poll_ready rd_rv rd_errno rets) w =
     (if event_poller (f w) = Poll_started \<and> kernel_ok rets w
      then opt (writePollCb cfg
                  \<lparr>read_rv = rd_rv, read_errno = rd_errno, poll_getevents_rets = rets,
                   uv_queue_work_rv = (\<lambda>r. 0)\<rparr> 0 UV_READABLE w)
      else None)"
| "react cfg (Close_poller close_rv destroy_rv) w =
     (if event_poller (f w) = Poll_closing
      then opt (pollCloseCb close_rv destroy_rv (w\<lparr>f := (f w)\<lparr>event_poller := Poll_closed\<rparr>\<rparr>))
      else None)"

fun run :: "config \<Rightarrow> action list \<Rightarrow> world \<Rightarrow> world option" where
  "run cfg [] w = Some w"
| "run cfg (a # as) w = (case react cfg a w of None \<Rightarrow> None | Some w' \<Rightarrow> run cfg as w')"

text \<open>
  The start: \<open>uvFileInit\<close> returns 0 on a handle in memory of any content, with nothing
  yet in the kernel or in the thread pool for it.
\<close>

definition boot :: "init_env \<Rightarrow> bool \<Rightarrow> bool \<Rightarrow> world \<Rightarrow> world option" where
  "boot env direct' async' w =
     (case uvFileInit env direct' async' (w\<lparr>kaio := [], pool := [], finished := [], trace := []\<rparr>) of
        Inl e \<Rightarrow> None
      | Inr (rv, w') \<Rightarrow> if rv = 0 then Some w' else None)"

text \<open>The events a run has added to the trace, and the requests whose callbacks are among events.\<close>

definition new_events :: "world \<Rightarrow> world \<Rightarrow> event list" where
  "new_events w w' = drop (length (trace w)) (trace w')"

fun cb_ids :: "event list \<Rightarrow> nat list" where
  "cb_ids [] = []"
| "cb_ids (Write_cb r s # es) = r # cb_ids es"
| "cb_ids (e # es) = cb_ids es"

fun cb_statuses :: "event list \<Rightarrow> int list" where
  "cb_statuses [] = []"
| "cb_statuses (Write_cb r s # es) = s # cb_statuses es"
| "cb_statuses (e # es) = cb_statuses es"

text \<open>Events with no write callback, no close callback and no \<open>open\<close> among them.\<close>

definition quiet :: "event list \<Rightarrow> bool" where
  "quiet es \<longleftrightarrow> cb_ids es = [] \<and> Close_cb \<notin> set es \<and> \<not> list_ex is_open es"

fun write_ids :: "work list \<Rightarrow> nat list" where
  "write_ids [] = []"
| "write_ids (Write_work r # ws) = r # write_ids ws"
| "write_ids (Create_work # ws) = write_ids ws"

text \<open>
  How the events \<open>es\<close> that lead from \<open>w\<close> to \<open>w'\<close> account for the write queue: a
  request leaves the queue only with its callback, and once the handle is closing every
  callback carries \<open>UV_ECANCELED\<close>, no request has two, and nothing enters the queue.
\<close>

definition accounted :: "world \<Rightarrow> world \<Rightarrow> event list \<Rightarrow> bool" where
  "accounted w w' es \<longleftrightarrow>
     trace w' = trace w @ es \<and>
     set (write_queue (f w)) - set (cb_ids es) \<subseteq> set (write_queue (f w')) \<and>
     (closing (f w) \<longrightarrow>
        closing (f w') \<and> (\<forall>s \<in> set (cb_statuses es). s = UV_ECANCELED) \<and>
        distinct (cb_ids es) \<and> set (cb_ids es) \<inter> set (write_queue (f w')) = {} \<and>
        set (cb_ids es) \<union> set (write_queue (f w')) = set (write_queue (f w)))"

text \<open>What holds of every world a run reaches from a start.\<close>

definition inv :: "world \<Rightarrow> bool" where
  "inv w \<longleftrightarrow>
     distinct (write_queue (f w)) \<and> distinct (kaio w) \<and> distinct (pool w @ finished w) \<and>
     set (kaio w) \<subseteq> set (write_queue (f w)) \<and>
     set (write_ids (pool w @ finished w)) \<subseteq> set (write_queue (f w)) \<and>
     set (kaio w) \<inter> set (write_ids (pool w @ finished w)) = {} \<and>
     (Create_work \<in> set (pool w @ finished w) \<longrightarrow>
        state (f w) = CREATING \<and> created w \<and> write_queue (f w) = []) \<and>
     (uv_is_closing (event_poller (f w)) \<longrightarrow>
        closing (f w) \<and> write_queue (f w) = [] \<and> state (f w) \<noteq> CREATING) \<and>
     (\<not> created w \<longrightarrow> fd (f w) = - 1 \<and> write_queue (f w) = [])"

subsection \<open>What the statements speak of\<close>

text \<open>
  An event asks for the fall back to the thread pool when \<open>RWF_NOWAIT\<close> is defined and its
  result is \<open>- EAGAIN\<close>. \<open>finish_all\<close> is what the loop of \<open>writePollCb\<close> does with events
  none of which asks for it (or when the handle is closing, \<open>c\<close>) and whose callbacks are
  not NULL: each request gets its status, leaves the queue and has its callback invoked.
\<close>

definition would_block :: "config \<Rightarrow> io_event \<Rightarrow> bool" where
  "would_block cfg ev \<longleftrightarrow> has_RWF_NOWAIT cfg \<and> ev_res ev = - EAGAIN"

fun finish_all :: "bool \<Rightarrow> io_event list \<Rightarrow> world \<Rightarrow> world" where
  "finish_all c [] w = w"
| "finish_all c (ev # evs) w =
     finish_all c evs
       (write_finished (ev_data ev)
          (set_status (ev_data ev) (if c then UV_ECANCELED else ev_res ev) w))"

text \<open>
  \<open>writePollCb\<close> gets to its loop with the events \<open>evs\<close>: its assertions hold, the read of
  the event file descriptor gives 8 bytes and \<open>io_getevents\<close> stores \<open>evs\<close>, which fit the
  array. And the assertions of \<open>uvFileWrite\<close>.
\<close>

definition events_fetched :: "poll_env \<Rightarrow> int \<Rightarrow> 32 word \<Rightarrow> world \<Rightarrow> io_event list \<Rightarrow> bool" where
  "events_fetched env status evmask w evs \<longleftrightarrow>
     0 \<le> event_fd (f w) \<and> state (f w) = READY \<and> status = 0 \<and> evmask AND UV_READABLE \<noteq> 0 \<and>
     read_rv env = 8 \<and> getevents_retry (poll_getevents_rets env) = Some (Ge_events evs) \<and>
     evs \<noteq> [] \<and> length evs \<le> length (events (f w)) \<and> length evs < 2 ^ 32"

definition write_asserts :: "world \<Rightarrow> nat \<Rightarrow> nat \<Rightarrow> nat \<Rightarrow> bool" where
  "write_asserts w req bufs n \<longleftrightarrow>
     \<not> closing (f w) \<and> state (f w) = READY \<and>
     (n_events (f w) = 1 \<longrightarrow> write_queue (f w) = []) \<and>
     0 \<le> fd (f w) \<and> 0 \<le> event_fd (f w) \<and> ctx (f w) \<noteq> 0 \<and> req \<noteq> 0 \<and> bufs \<noteq> 0 \<and> 0 < n"

text \<open>
  A request that will block in \<open>io_submit\<close> (no eventfd, no \<open>RWF_NOWAIT\<close>), a request with
  \<open>RWF_DSYNC\<close>, and open flags with \<open>O_DSYNC\<close>.
\<close>

definition blocking_iocb :: "iocb \<Rightarrow> bool" where
  "blocking_iocb cb \<longleftrightarrow>
     aio_flags cb AND IOCB_FLAG_RESFD = 0 \<and> aio_resfd cb = 0 \<and> aio_rw_flags cb AND RWF_NOWAIT = 0"

definition dsync_request :: "iocb \<Rightarrow> bool" where
  "dsync_request cb \<longleftrightarrow> aio_rw_flags cb AND RWF_DSYNC = RWF_DSYNC"

definition dsync_open :: "config \<Rightarrow> bool" where
  "dsync_open cfg \<longleftrightarrow> open_flags cfg AND O_DSYNC = O_DSYNC"

text \<open>
  The requests handed to \<open>io_submit\<close> and the flags passed to \<open>open\<close> in a trace, the
  arguments (request, buffers, their number, offset) of the calls of \<open>uvFileWrite\<close> in a
  run, and the same four fields of a request.
\<close>

fun submissions :: "event list \<Rightarrow> iocb list" where
  "submissions [] = []"
| "submissions (Sys_io_submit c k # es) = k # submissions es"
| "submissions (e # es) = submissions es"

fun opens :: "event list \<Rightarrow> 32 word list" where
  "opens [] = []"
| "opens (Sys_open p fl # es) = fl # opens es"
| "opens (e # es) = opens es"

fun write_calls :: "action list \<Rightarrow> (nat \<times> nat \<times> nat \<times> nat) list" where
  "write_calls [] = []"
| "write_calls (Call_write env req bufs n offset cb # as) = (req, bufs, n, offset) # write_calls as"
| "write_calls (a # as) = write_calls as"

definition iocb_args :: "iocb \<Rightarrow> nat \<times> nat \<times> nat \<times> nat" where
  "iocb_args k = (aio_data k, aio_buf k, aio_nbytes k, aio_offset k)"

text \<open>
  What a step keeps: the fields of the handle that only \<open>uvFileInit\<close> and \<open>uvFileCreate\<close>
  write, and the \<open>iocb\<close> of every request but for the flags the fall back clears. A
  request is in order when it carries \<open>RWF_DSYNC\<close> (where defined) and its arguments are
  among \<open>A\<close>; so are a world's requests when those handed to \<open>io_submit\<close> so far and those
  in the write queue are.
\<close>

definition same_handle :: "world \<Rightarrow> world \<Rightarrow> bool" where
  "same_handle w w' \<longleftrightarrow>
     fd (f w') = fd (f w) \<and> event_fd (f w') = event_fd (f w) \<and> ctx (f w') = ctx (f w) \<and>
     async (f w') = async (f w) \<and> direct (f w') = direct (f w) \<and>
     n_events (f w') = n_events (f w)"

definition iocbs_kept :: "world \<Rightarrow> world \<Rightarrow> bool" where
  "iocbs_kept w w' \<longleftrightarrow>
     (\<forall>x. w_iocb (wreq w' x) = w_iocb (wreq w x) \<or>
          w_iocb (wreq w' x) = clear_nowait (w_iocb (wreq w x)))"

definition request_ok :: "config \<Rightarrow> (nat \<times> nat \<times> nat \<times> nat) set \<Rightarrow> iocb \<Rightarrow> bool" where
  "request_ok cfg A k \<longleftrightarrow> (has_RWF_DSYNC cfg \<longrightarrow> dsync_request k) \<and> iocb_args k \<in> A"

definition requests_ok :: "config \<Rightarrow> (nat \<times> nat \<times> nat \<times> nat) set \<Rightarrow> world \<Rightarrow> bool" where
  "requests_ok cfg A w \<longleftrightarrow>
     (\<forall>k \<in> set (submissions (trace w)). request_ok cfg A k) \<and>
     (\<forall>r \<in> set (write_queue (f w)). request_ok cfg A (w_iocb (wreq w r)))"

subsection \<open>Example worlds\<close>

definition demo_cfg :: config where
  "demo_cfg = \<lparr>has_RWF_HIPRI = True, has_RWF_DSYNC = True, has_RWF_NOWAIT = True,
     osDirname = (\<lambda>p. ''/data''), OS_MAX_PATH_LEN = 1024\<rparr>"

definition no_request :: uvFileWrite where
  "no_request = \<lparr>w_cb = 0, w_iocb = zero_iocb, w_status = 0\<rparr>"

text \<open>A handle whose create request is with the thread pool.\<close>

definition creating_world :: world where
  "creating_world =
     \<lparr>f = \<lparr>fd = 6, direct = True, async = True, event_fd = 5, event_poller = Poll_init,
           ctx = 77, events = [zero_event], n_events = 1, write_queue = [], closing = False,
           close_cb = 0, state = CREATING\<rparr>,
      creq = \<lparr>c_cb = 3, c_path = ''/data/open-1'', c_size = 4096, c_status = 0\<rparr>,
      wreq = (\<lambda>r. no_request), kaio = [], pool = [], finished = [Create_work], trace = []\<rparr>"

definition create_ok :: create_env where
  "create_ok = \<lparr>posix_fallocate_rv = 0, fsync_rv = 0, fsync_errno = 0, osSyncDir_rv = 0,
     osSetDirectIO_rv = 0\<rparr>"

text \<open>Memory of any content, and system calls that succeed.\<close>

definition blank_world :: world where
  "blank_world =
     \<lparr>f = \<lparr>fd = 0, direct = False, async = False, event_fd = 0, event_poller = Poll_init,
           ctx = 0, events = [], n_events = 0, write_queue = [], closing = False,
           close_cb = 0, state = 0\<rparr>,
      creq = \<lparr>c_cb = 0, c_path = [], c_size = 0, c_status = 0\<rparr>,
      wreq = (\<lambda>r. no_request), kaio = [], pool = [], finished = [], trace = []\<rparr>"

definition init_ok :: init_env where
  "init_ok = \<lparr>eventfd_rv = 5, eventfd_errno = 0, uv_poll_init_rv = 0\<rparr>"

definition open_ok :: open_env where
  "open_ok = \<lparr>open_rv = 6, open_errno = 0, setup_rv = 0, setup_errno = 0, setup_ctx = 77,
     calloc_fails = False, create_queue_work_rv = 0\<rparr>"

definition submit_ok :: write_env where
  "submit_ok = \<lparr>submit_rv = 1, submit_errno = 0, write_queue_work_rv = 0\<rparr>"

text \<open>
  A worker whose write the kernel completes with the result \<open>- EIO\<close>, and one whose write
  of 4096 bytes succeeds.
\<close>

definition work_eio :: work_env where
  "work_eio = \<lparr>io_setup_rv = 0, io_setup_errno = 0, io_setup_ctx = 78, io_submit_rv = 1,
     io_submit_errno = 0, io_getevents_rets = [Ge_events [\<lparr>ev_data = 1, ev_res = - EIO\<rparr>]],
     io_destroy_rv = 0, io_destroy_errno = 0\<rparr>"

definition work_ok :: work_env where
  "work_ok = \<lparr>io_setup_rv = 0, io_setup_errno = 0, io_setup_ctx = 78, io_submit_rv = 1,
     io_submit_errno = 0, io_getevents_rets = [Ge_events [\<lparr>ev_data = 1, ev_res = 4096\<rparr>]],
     io_destroy_rv = 0, io_destroy_errno = 0\<rparr>"

text \<open>The create request of a segment file of 4096 bytes, run to its end.\<close>

definition create_segment :: "nat \<Rightarrow> action list" where
  "create_segment max_n_writes =
     [Call_create open_ok ''/data/open-1'' 4096 max_n_writes 3, Work_create create_ok,
      After_create 0]"

text \<open>Two writes, requests 1 and 2, handed to the kernel one after the other.\<close>

definition two_writes :: "action list" where
  "two_writes = create_segment 2 @
     [Call_write submit_ok 1 64 1 0 7, Call_write submit_ok 2 65 1 4096 7]"

text \<open>What is left of a run for an observer.\<close>

definition after :: "config \<Rightarrow> action list \<Rightarrow> world option \<Rightarrow> world option" where
  "after cfg as x = (case x of None \<Rightarrow> None | Some w \<Rightarrow> run cfg as w)"

definition callbacks :: "world option \<Rightarrow> (nat list \<times> int list) option" where
  "callbacks x = map_option (\<lambda>w. (cb_ids (trace w), cb_statuses (trace w))) x"

definition in_flight :: "world option \<Rightarrow> (nat list \<times> nat list \<times> work list \<times> work list) option" where
  "in_flight x = map_option (\<lambda>w. (write_queue (f w), kaio w, pool w, finished w)) x"

definition handle_state :: "world option \<Rightarrow> (int \<times> bool \<times> poller) option" where
  "handle_state x = map_option (\<lambda>w. (state (f w), closing (f w), event_poller (f w))) x"

text \<open>A READY handle with room for one write, which submits to the kernel itself.\<close>

definition ready_world :: world where
  "ready_world =
     \<lparr>f = \<lparr>fd = 6, direct = True, async = True, event_fd = 5, event_poller = Poll_started,
           ctx = 77, events = [zero_event], n_events = 1, write_queue = [], closing = False,
           close_cb = 0, state = READY\<rparr>,
      creq = \<lparr>c_cb = 3, c_path = ''/data/open-1'', c_size = 4096, c_status = 0\<rparr>,
      wreq = (\<lambda>r. no_request), kaio = [], pool = [], finished = [], trace = []\<rparr>"


definition started_world :: world where
  "started_world =
     \<lparr>f = \<lparr>fd = - 1, direct = True, async = True, event_fd = 5, event_poller = Poll_init,
           ctx = 0, events = [], n_events = 0, write_queue = [], closing = False,
           close_cb = 0, state = 0\<rparr>,
      creq = \<lparr>c_cb = 0, c_path = [], c_size = 0, c_status = 0\<rparr>,
      wreq = (\<lambda>r. no_request), kaio = [], pool = [], finished = [], trace = []\<rparr>"



text \<open>
  Runs and accessors of the examples: \<open>io_submit\<close> failing with EAGAIN, a wake-up of
  \<open>writePollCb\<close> with given answers of \<open>io_getevents\<close>, a write at offset 3, and a close
  after a wake-up in which the first of two events asks for the fall back.
\<close>

definition submit_again :: write_env where
  "submit_again = \<lparr>submit_rv = - 1, submit_errno = EAGAIN, write_queue_work_rv = 0\<rparr>"

definition fall_back_run :: "action list" where
  "fall_back_run = create_segment 2 @
     [Call_write submit_again 1 64 1 0 7, Work_write work_ok 1,
      Call_write submit_ok 2 65 1 4096 7]"

definition woken :: "getevents_ret list \<Rightarrow> poll_env" where
  "woken rets = \<lparr>read_rv = 8, read_errno = 0, poll_getevents_rets = rets,
     uv_queue_work_rv = (\<lambda>r. 0)\<rparr>"

definition unaligned_write :: "action list" where
  "unaligned_write = create_segment 1 @ [Call_write submit_ok 1 64 1 3 7]"

definition submitted :: "world option \<Rightarrow> (nat \<times> nat \<times> nat \<times> nat) list option" where
  "submitted x = map_option (\<lambda>w. map iocb_args (submissions (trace w))) x"

definition aligned_to :: "nat \<Rightarrow> world option \<Rightarrow> bool option" where
  "aligned_to bs x =
     map_option (\<lambda>w. list_all (\<lambda>k. aio_offset k mod bs = 0) (submissions (trace w))) x"

definition switched_direct :: "world option \<Rightarrow> (bool \<times> bool) option" where
  "switched_direct x =
     map_option (\<lambda>w. (direct (f w), Os_SetDirectIO (fd (f w)) \<in> set (trace w))) x"

definition left_waiting :: "action list" where
  "left_waiting = two_writes @
     [Poll_ready 8 0 [Ge_events [\<lparr>ev_data = 1, ev_res = - EAGAIN\<rparr>, \<lparr>ev_data = 2, ev_res = 4096\<rparr>]],
      Work_write work_ok 1, After_write 1, Call_close 0 9]"

definition leader_node :: raft where
  "leader_node = \<lparr>raft_id = 1, raft_address = Some ''1'', raft_state = RAFT_LEADER,
     follower_state_current_leader = \<lparr>leader_id = 0, leader_address = None\<rparr>\<rparr>"

definition follower_node :: raft where
  "follower_node = \<lparr>raft_id = 2, raft_address = Some ''2'', raft_state = RAFT_FOLLOWER,
     follower_state_current_leader = \<lparr>leader_id = 1, leader_address = Some ''1''\<rparr>\<rparr>"

definition candidate_node :: raft where
  "candidate_node = \<lparr>raft_id = 3, raft_address = Some ''3'', raft_state = RAFT_CANDIDATE,
     follower_state_current_leader = \<lparr>leader_id = 1, leader_address = Some ''1''\<rparr>\<rparr>"

section \<open>Properties\<close>

subsection \<open>Helper facts\<close>

lemma and_then_Inr: "and_then x g = Inr y \<longleftrightarrow> (\<exists>w. x = Inr w \<and> g w = Inr y)"
  by (cases x) (simp_all add: and_then_def)

lemma createWorkCb_ok:
  assumes "createWorkCb cfg env w = Inr w'"
    and "c_status (creq w') = 0"
    and "fsync_rv env = - 1 \<longrightarrow> fsync_errno env \<noteq> 0"
  shows "trace w' = trace w @
           [Sys_posix_fallocate (fd (f w)) 0 (c_size (creq w)), Sys_fsync (fd (f w)),
            Os_SyncDir (osDirname cfg (c_path (creq w)))] @
           (if direct (f w) then [Os_SetDirectIO (fd (f w))] else [])"
    and "f w' = f w" and "state (f w) = CREATING" and "c_cb (creq w') = c_cb (creq w)"
  using assms
  by (auto simp: createWorkCb_def Let_def emit_def create_status_def uv_translate_sys_error_def
      split: if_splits)

lemma createAfterWorkCb_ok:
  assumes "createAfterWorkCb prv st w = Inr w'"
    and "c_status (creq w') = 0"
  shows "trace w' = trace w @ [Uv_poll_start] @ (if c_cb (creq w) \<noteq> 0 then [Create_cb 0] else [])"
    and "state (f w') = READY"
  using assms
  by (auto simp: createAfterWorkCb_def maybeClosed_def Let_def emit_def create_status_def
      UV_ECANCELED_def READY_def CLOSED_def split: if_splits)

lemma uvFileWrite_needs_READY:
  "state (f w) \<noteq> READY \<Longrightarrow> uvFileWrite cfg env req bufs n offset cb w = Inl Assert_failed"
  by (simp add: uvFileWrite_def)

subsection \<open>What each function changes\<close>

lemma emit_proj [simp]:
  "f (emit es w) = f w" "creq (emit es w) = creq w" "wreq (emit es w) = wreq w"
  "kaio (emit es w) = kaio w" "pool (emit es w) = pool w" "finished (emit es w) = finished w"
  "trace (emit es w) = trace w @ es"
  by (simp_all add: emit_def)

lemma set_status_proj [simp]:
  "f (set_status r s w) = f w" "creq (set_status r s w) = creq w"
  "kaio (set_status r s w) = kaio w" "pool (set_status r s w) = pool w"
  "finished (set_status r s w) = finished w" "trace (set_status r s w) = trace w"
  "w_status (wreq (set_status r s w) r) = s"
  "w_cb (wreq (set_status r s w) x) = w_cb (wreq w x)"
  "w_iocb (wreq (set_status r s w) x) = w_iocb (wreq w x)"
  by (simp_all add: set_status_def)

lemma fall_back_proj [simp]:
  "f (fall_back r w) = f w" "creq (fall_back r w) = creq w"
  "kaio (fall_back r w) = kaio w" "pool (fall_back r w) = pool w"
  "finished (fall_back r w) = finished w" "trace (fall_back r w) = trace w"
  "w_cb (wreq (fall_back r w) x) = w_cb (wreq w x)"
  "w_status (wreq (fall_back r w) x) = w_status (wreq w x)"
  by (simp_all add: fall_back_def)

lemma queue_work_proj [simp]:
  "f (queue_work x w) = f w" "creq (queue_work x w) = creq w" "wreq (queue_work x w) = wreq w"
  "kaio (queue_work x w) = kaio w" "pool (queue_work x w) = pool w @ [x]"
  "finished (queue_work x w) = finished w" "trace (queue_work x w) = trace w"
  by (simp_all add: queue_work_def)

lemma create_status_proj [simp]:
  "f (create_status s w) = f w" "c_status (creq (create_status s w)) = s"
  "c_cb (creq (create_status s w)) = c_cb (creq w)"
  "c_path (creq (create_status s w)) = c_path (creq w)"
  "wreq (create_status s w) = wreq w"
  "kaio (create_status s w) = kaio w" "pool (create_status s w) = pool w"
  "finished (create_status s w) = finished w" "trace (create_status s w) = trace w"
  by (simp_all add: create_status_def)

lemma write_finished_proj [simp]:
  "f (write_finished r w) = (f w)\<lparr>write_queue := remove1 r (write_queue (f w))\<rparr>"
  "creq (write_finished r w) = creq w" "wreq (write_finished r w) = wreq w"
  "kaio (write_finished r w) = kaio w" "pool (write_finished r w) = pool w"
  "finished (write_finished r w) = finished w"
  "trace (write_finished r w) = trace w @ [Write_cb r (w_status (wreq w r))]"
  by (simp_all add: write_finished_def)

lemma writeFinish_Inr [simp]:
  "writeFinish r w = Inr w' \<longleftrightarrow> w_cb (wreq w r) \<noteq> 0 \<and> w' = write_finished r w"
  by (auto simp: writeFinish_def)

lemma work_done_proj [simp]:
  "f (work_done x w) = f w" "creq (work_done x w) = creq w" "wreq (work_done x w) = wreq w"
  "kaio (work_done x w) = kaio w" "pool (work_done x w) = remove1 x (pool w)"
  "finished (work_done x w) = finished w @ [x]" "trace (work_done x w) = trace w"
  by (simp_all add: work_done_def)

lemma after_work_proj [simp]:
  "f (after_work x w) = f w" "creq (after_work x w) = creq w" "wreq (after_work x w) = wreq w"
  "kaio (after_work x w) = kaio w" "pool (after_work x w) = pool w"
  "finished (after_work x w) = remove1 x (finished w)" "trace (after_work x w) = trace w"
  by (simp_all add: after_work_def)

lemma store_events_proj [simp]:
  "f (store_events evs w) = (f w)\<lparr>events := take (length (events (f w)))
      (evs @ drop (length evs) (events (f w)))\<rparr>"
  "creq (store_events evs w) = creq w" "wreq (store_events evs w) = wreq w"
  "kaio (store_events evs w) = filter (\<lambda>r. r \<notin> set (map ev_data evs)) (kaio w)"
  "pool (store_events evs w) = pool w"
  "finished (store_events evs w) = finished w" "trace (store_events evs w) = trace w"
  by (simp_all add: store_events_def)

lemma cb_ids_append [simp]: "cb_ids (xs @ ys) = cb_ids xs @ cb_ids ys"
  by (induction xs rule: cb_ids.induct) simp_all

lemma cb_statuses_append [simp]: "cb_statuses (xs @ ys) = cb_statuses xs @ cb_statuses ys"
  by (induction xs rule: cb_statuses.induct) simp_all

lemma write_ids_append [simp]: "write_ids (xs @ ys) = write_ids xs @ write_ids ys"
  by (induction xs rule: write_ids.induct) simp_all

lemma write_ids_set [simp]: "r \<in> set (write_ids ws) \<longleftrightarrow> Write_work r \<in> set ws"
  by (induction ws rule: write_ids.induct) auto

lemma quiet_simps [simp]:
  "quiet []" "quiet (xs @ ys) \<longleftrightarrow> quiet xs \<and> quiet ys"
  by (auto simp: quiet_def)

lemma created_append: "trace w' = trace w @ es \<Longrightarrow> created w' \<longleftrightarrow> created w \<or> list_ex is_open es"
  by (simp add: created_def list_ex_iff) blast

lemma created_quiet: "trace w' = trace w @ es \<Longrightarrow> quiet es \<Longrightarrow> created w' = created w"
  by (simp add: created_append quiet_def)

lemma createWorkCb_effect:
  assumes "createWorkCb cfg env w = Inr w'"
  shows "f w' = f w" "kaio w' = kaio w" "pool w' = pool w" "finished w' = finished w"
    "wreq w' = wreq w" "\<exists>es. trace w' = trace w @ es \<and> quiet es"
  using assms
  by (auto simp: createWorkCb_def Let_def quiet_def split: if_splits)

lemma writeWorkCb_effect:
  assumes "writeWorkCb env r w = Inr w'"
  shows "f w' = f w" "kaio w' = kaio w" "pool w' = pool w" "finished w' = finished w"
    "\<exists>es. trace w' = trace w @ es \<and> quiet es" "state (f w) = READY"
  using assms
  by (auto simp: writeWorkCb_def Let_def quiet_def
      split: if_splits option.splits getevents_ret.splits list.splits)

lemma maybeClosed_effect:
  assumes "maybeClosed w = Inr w'"
  shows "kaio w' = kaio w" "pool w' = pool w" "finished w' = finished w" "wreq w' = wreq w"
    "creq w' = creq w"
    "write_queue (f w') = write_queue (f w)" "closing (f w') = closing (f w)"
    "state (f w') = state (f w)" "fd (f w') = fd (f w)" "n_events (f w') = n_events (f w)"
    "event_poller (f w') = event_poller (f w) \<or>
       event_poller (f w') = Poll_closing \<and> closing (f w) \<and> state (f w) \<noteq> CREATING \<and>
       write_queue (f w) = [] \<and> \<not> uv_is_closing (event_poller (f w))"
    "\<exists>es. trace w' = trace w @ es \<and> quiet es"
    "state (f w) \<noteq> CLOSED"
  using assms by (auto simp: maybeClosed_def quiet_def split: if_splits)

lemma uvFileCreate_effect:
  assumes "uvFileCreate cfg env path sz m cb w = Inr (rv, w')"
  shows "\<not> closing (f w)" "closing (f w') = closing (f w)"
    "write_queue (f w') = write_queue (f w)" "event_poller (f w') = event_poller (f w)"
    "kaio w' = kaio w" "finished w' = finished w" "created w'"
    "rv = 0 \<and> state (f w') = CREATING \<and> pool w' = pool w @ [Create_work] \<and> n_events (f w') = m
       \<or> rv \<noteq> 0 \<and> state (f w') = 0 \<and> pool w' = pool w"
    "\<exists>es. trace w' = trace w @ es \<and> cb_ids es = [] \<and> Close_cb \<notin> set es"
  using assms
  by (auto simp: uvFileCreate_def create_err_def create_err_after_open_def Let_def created_def
      split: if_splits)

lemma write_err_effect:
  assumes "write_err req rv w = Inr (rv', w')"
  shows "rv' = rv" "rv \<noteq> 0" "w' = w\<lparr>f := (f w)\<lparr>write_queue := remove1 req (write_queue (f w))\<rparr>\<rparr>"
  using assms by (auto simp: write_err_def split: if_splits)

lemma write_in_threadpool_effect:
  assumes "write_in_threadpool env req w = Inr (rv, w')"
  shows "kaio w' = kaio w" "finished w' = finished w" "wreq w' = wreq w" "creq w' = creq w"
    "trace w' = trace w @ [Uv_queue_work (Write_work req)]"
    "rv = 0 \<and> f w' = f w \<and> pool w' = pool w @ [Write_work req]
       \<or> rv \<noteq> 0 \<and> f w' = (f w)\<lparr>write_queue := remove1 req (write_queue (f w))\<rparr> \<and> pool w' = pool w"
  using assms
  by (auto simp: write_in_threadpool_def Let_def write_err_def split: if_splits)

lemma uvFileWrite_asserts:
  assumes "uvFileWrite cfg env req bufs n offset cb w = Inr (rv, w')"
  shows "\<not> closing (f w)" "state (f w) = READY" "n_events (f w) = 1 \<Longrightarrow> write_queue (f w) = []"
    "0 \<le> fd (f w)" "0 \<le> event_fd (f w)" "ctx (f w) \<noteq> 0" "req \<noteq> 0" "bufs \<noteq> 0" "0 < n"
  using assms by (auto simp: uvFileWrite_def split: if_splits)

lemma uvFileWrite_effect:
  assumes "uvFileWrite cfg env req bufs n offset cb w = Inr (rv, w')"
  shows "finished w' = finished w" "closing (f w') = closing (f w)"
    "state (f w') = state (f w)" "fd (f w') = fd (f w)" "n_events (f w') = n_events (f w)"
    "event_poller (f w') = event_poller (f w)"
    "rv = 0 \<and> write_queue (f w') = write_queue (f w) @ [req] \<and>
          (kaio w' = kaio w @ [req] \<and> pool w' = pool w \<or>
           kaio w' = kaio w \<and> pool w' = pool w @ [Write_work req])
        \<or> rv \<noteq> 0 \<and> write_queue (f w') = remove1 req (write_queue (f w) @ [req]) \<and>
          kaio w' = kaio w \<and> pool w' = pool w"
    "\<exists>es. trace w' = trace w @ es \<and> quiet es"
proof -
  note a = uvFileWrite_asserts [OF assms]
  let ?w1 = "w\<lparr>wreq := (wreq w)(req := (wreq w req)\<lparr>w_cb := cb,
                         w_iocb := write_iocb cfg (f w) req bufs n offset\<rparr>),
                   f := (f w)\<lparr>write_queue := write_queue (f w) @ [req]\<rparr>\<rparr>"
  let ?w2 = "emit [Sys_io_submit (ctx (f w)) (w_iocb (wreq ?w1 req))] ?w1"
  let ?goal = "finished w' = finished w \<and> closing (f w') = closing (f w) \<and>
    state (f w') = state (f w) \<and> fd (f w') = fd (f w) \<and> n_events (f w') = n_events (f w) \<and>
    event_poller (f w') = event_poller (f w) \<and>
    (rv = 0 \<and> write_queue (f w') = write_queue (f w) @ [req] \<and>
          (kaio w' = kaio w @ [req] \<and> pool w' = pool w \<or>
           kaio w' = kaio w \<and> pool w' = pool w @ [Write_work req])
        \<or> rv \<noteq> 0 \<and> write_queue (f w') = remove1 req (write_queue (f w) @ [req]) \<and>
          kaio w' = kaio w \<and> pool w' = pool w) \<and>
    (\<exists>es. trace w' = trace w @ es \<and> quiet es)"
  from assms a consider
      (pool) "write_in_threadpool env req ?w1 = Inr (rv, w')"
    | (kernel) "rv = 0" "w' = ?w2\<lparr>kaio := kaio ?w2 @ [req]\<rparr>"
    | (again) "write_in_threadpool env req (fall_back req ?w2) = Inr (rv, w')"
    | (err) "write_err req (uv_translate_sys_error (submit_errno env)) ?w2 = Inr (rv, w')"
    by (simp add: uvFileWrite_def Let_def split: if_splits)
  then have ?goal
  proof cases
    case pool
    from write_in_threadpool_effect [OF this] show ?thesis
      by (auto simp: quiet_def)
  next
    case kernel
    then show ?thesis by (simp add: quiet_def)
  next
    case again
    from write_in_threadpool_effect [OF this] show ?thesis
      by (auto simp: quiet_def)
  next
    case err
    from write_err_effect [OF this] show ?thesis
      by (auto simp: quiet_def)
  qed
  then show "finished w' = finished w" "closing (f w') = closing (f w)"
    "state (f w') = state (f w)" "fd (f w') = fd (f w)" "n_events (f w') = n_events (f w)"
    "event_poller (f w') = event_poller (f w)"
    "rv = 0 \<and> write_queue (f w') = write_queue (f w) @ [req] \<and>
          (kaio w' = kaio w @ [req] \<and> pool w' = pool w \<or>
           kaio w' = kaio w \<and> pool w' = pool w @ [Write_work req])
        \<or> rv \<noteq> 0 \<and> write_queue (f w') = remove1 req (write_queue (f w) @ [req]) \<and>
          kaio w' = kaio w \<and> pool w' = pool w"
    "\<exists>es. trace w' = trace w @ es \<and> quiet es"
    by blast+
qed

lemma uvFileClose_effect:
  assumes "uvFileClose close_rv cb w = Inr w'"
  shows "\<not> closing (f w)" "kaio w' = kaio w" "pool w' = pool w" "finished w' = finished w"
    "write_queue (f w') = write_queue (f w)" "closing (f w')"
    "state (f w') = state (f w)" "fd (f w') = fd (f w)" "n_events (f w') = n_events (f w)"
    "event_poller (f w') = event_poller (f w) \<or>
       event_poller (f w') = Poll_closing \<and> state (f w) \<noteq> CREATING \<and>
       write_queue (f w) = [] \<and> \<not> uv_is_closing (event_poller (f w))"
    "\<exists>es. trace w' = trace w @ es \<and> quiet es"
proof -
  let ?w1 = "w\<lparr>f := (f w)\<lparr>closing := True, close_cb := cb\<rparr>\<rparr>"
  let ?goal = "kaio w' = kaio w \<and> pool w' = pool w \<and> finished w' = finished w \<and>
    write_queue (f w') = write_queue (f w) \<and> closing (f w') \<and>
    state (f w') = state (f w) \<and> fd (f w') = fd (f w) \<and> n_events (f w') = n_events (f w) \<and>
    (event_poller (f w') = event_poller (f w) \<or>
       event_poller (f w') = Poll_closing \<and> state (f w) \<noteq> CREATING \<and>
       write_queue (f w) = [] \<and> \<not> uv_is_closing (event_poller (f w))) \<and>
    (\<exists>es. trace w' = trace w @ es \<and> quiet es)"
  from assms show "\<not> closing (f w)"
    by (auto simp: uvFileClose_def split: if_splits)
  from assms consider "maybeClosed (emit [Sys_close (fd (f w))] ?w1) = Inr w'"
    | "maybeClosed ?w1 = Inr w'"
    by (auto simp: uvFileClose_def Let_def split: if_splits)
  then have ?goal
  proof cases
    case 1
    from maybeClosed_effect [OF this] show ?thesis
      by (auto simp: quiet_def)
  next
    case 2
    from maybeClosed_effect [OF this] show ?thesis
      by (auto simp: quiet_def)
  qed
  then show "kaio w' = kaio w" "pool w' = pool w" "finished w' = finished w"
    "write_queue (f w') = write_queue (f w)" "closing (f w')"
    "state (f w') = state (f w)" "fd (f w') = fd (f w)" "n_events (f w') = n_events (f w)"
    "event_poller (f w') = event_poller (f w) \<or>
       event_poller (f w') = Poll_closing \<and> state (f w) \<noteq> CREATING \<and>
       write_queue (f w) = [] \<and> \<not> uv_is_closing (event_poller (f w))"
    "\<exists>es. trace w' = trace w @ es \<and> quiet es"
    by blast+
qed

lemma writeAfterWorkCb_effect:
  assumes "writeAfterWorkCb st r w = Inr w'"
  shows "state (f w) = READY" "kaio w' = kaio w" "pool w' = pool w" "finished w' = finished w"
    "write_queue (f w') = remove1 r (write_queue (f w))" "closing (f w') = closing (f w)"
    "state (f w') = state (f w)" "fd (f w') = fd (f w)" "n_events (f w') = n_events (f w)"
    "event_poller (f w') = event_poller (f w) \<or>
       event_poller (f w') = Poll_closing \<and> closing (f w) \<and>
       remove1 r (write_queue (f w)) = [] \<and> \<not> uv_is_closing (event_poller (f w))"
    "\<exists>es. trace w' = trace w @
        Write_cb r (if closing (f w) then UV_ECANCELED else w_status (wreq w r)) # es \<and> quiet es"
    "w_cb (wreq w r) \<noteq> 0"
proof -
  let ?w1 = "write_finished r (if closing (f w) then set_status r UV_ECANCELED w else w)"
  from assms have rdy: "state (f w) = READY" and m: "maybeClosed ?w1 = Inr w'"
    and cb: "w_cb (wreq w r) \<noteq> 0"
    by (auto simp: writeAfterWorkCb_def Let_def split: if_splits sum.splits)
  from cb show "w_cb (wreq w r) \<noteq> 0" .
  from maybeClosed_effect [OF m] rdy
  show "state (f w) = READY" "kaio w' = kaio w" "pool w' = pool w" "finished w' = finished w"
    "write_queue (f w') = remove1 r (write_queue (f w))" "closing (f w') = closing (f w)"
    "state (f w') = state (f w)" "fd (f w') = fd (f w)" "n_events (f w') = n_events (f w)"
    "event_poller (f w') = event_poller (f w) \<or>
       event_poller (f w') = Poll_closing \<and> closing (f w) \<and>
       remove1 r (write_queue (f w)) = [] \<and> \<not> uv_is_closing (event_poller (f w))"
    "\<exists>es. trace w' = trace w @
        Write_cb r (if closing (f w) then UV_ECANCELED else w_status (wreq w r)) # es \<and> quiet es"
    by (auto split: if_splits)
qed

lemma pollCloseCb_effect:
  assumes "pollCloseCb close_rv destroy_rv w = Inr w'"
  shows "closing (f w)" "state (f w) \<noteq> CLOSED" "write_queue (f w) = []"
    "kaio w' = kaio w" "pool w' = pool w" "finished w' = finished w"
    "f w' = (f w)\<lparr>state := CLOSED\<rparr>"
    "trace w' = trace w @ [Sys_close (event_fd (f w))] @
       (if ctx (f w) \<noteq> 0 then [Sys_io_destroy (ctx (f w))] else []) @ [Sys_free] @
       (if close_cb (f w) \<noteq> 0 then [Close_cb] else [])"
  using assms by (auto simp: pollCloseCb_def Let_def split: if_splits)

lemma createAfterWorkCb_effect:
  assumes "createAfterWorkCb prv st w = Inr w'"
  shows "kaio w' = kaio w" "pool w' = pool w" "finished w' = finished w"
    "write_queue (f w') = write_queue (f w)" "closing (f w') = closing (f w)"
    "state (f w') = READY \<or> state (f w') = ERRORED"
    "fd (f w') = fd (f w)" "n_events (f w') = n_events (f w)"
    "event_poller (f w') = event_poller (f w) \<or>
       event_poller (f w') = Poll_started \<and> \<not> closing (f w) \<or>
       event_poller (f w') = Poll_closing \<and> closing (f w) \<and> write_queue (f w) = []"
    "\<exists>es. trace w' = trace w @ es \<and> quiet es"
proof -
  let ?w1 = "(if closing (f w)
              then create_status UV_ECANCELED (emit [Sys_unlink (c_path (creq w))] w)
              else if c_status (creq w) = 0
              then
                (if prv \<noteq> 0
                 then emit [Sys_io_destroy (ctx (f w)), Sys_close (event_fd (f w)),
                            Sys_close (fd (f w)), Sys_unlink (c_path (creq w))]
                        (create_status prv (emit [Uv_poll_start] w))
                 else emit [Uv_poll_start] (w\<lparr>f := (f w)\<lparr>event_poller := Poll_started\<rparr>\<rparr>))
              else w)"
  let ?w2 = "?w1\<lparr>f := (f ?w1)\<lparr>state := (if c_status (creq ?w1) = 0 then READY else ERRORED)\<rparr>\<rparr>"
  let ?w3 = "(if c_cb (creq ?w2) \<noteq> 0 then emit [Create_cb (c_status (creq ?w2))] ?w2 else ?w2)"
  from assms have m: "maybeClosed ?w3 = Inr w'"
    by (simp add: createAfterWorkCb_def Let_def split: if_splits)
  have w3: "kaio ?w3 = kaio w" "pool ?w3 = pool w" "finished ?w3 = finished w"
    "write_queue (f ?w3) = write_queue (f w)" "closing (f ?w3) = closing (f w)"
    "state (f ?w3) = READY \<or> state (f ?w3) = ERRORED"
    "fd (f ?w3) = fd (f w)" "n_events (f ?w3) = n_events (f w)"
    "event_poller (f ?w3) = event_poller (f w) \<or>
       event_poller (f ?w3) = Poll_started \<and> \<not> closing (f w)"
    "\<exists>es. trace ?w3 = trace w @ es \<and> quiet es"
    by (simp_all add: quiet_def)
  from maybeClosed_effect [OF m] w3
  show "kaio w' = kaio w" "pool w' = pool w" "finished w' = finished w"
    "write_queue (f w') = write_queue (f w)" "closing (f w') = closing (f w)"
    "state (f w') = READY \<or> state (f w') = ERRORED"
    "fd (f w') = fd (f w)" "n_events (f w') = n_events (f w)"
    "\<exists>es. trace w' = trace w @ es \<and> quiet es"
    by auto
  from maybeClosed_effect(11) [OF m] w3(4,5,9)
  show "event_poller (f w') = event_poller (f w) \<or>
       event_poller (f w') = Poll_started \<and> \<not> closing (f w) \<or>
       event_poller (f w') = Poll_closing \<and> closing (f w) \<and> write_queue (f w) = []"
    by metis
qed

subsection \<open>The loop of writePollCb\<close>

lemma loop_step:
  assumes "i < unat (word_of_int rv :: 32 word)" "i < length (events (f w))"
    "uv_queue_work_rv env (ev_data (events (f w) ! i)) = 0"
  shows "writePollCb_loop cfg env i rv w =
    (let ev = events (f w) ! i; r = ev_data ev in
     if closing (f w)
     then (case writeFinish r (set_status r UV_ECANCELED w) of
             Inl e \<Rightarrow> Inl e
           | Inr w1 \<Rightarrow> writePollCb_loop cfg env (Suc i) rv w1)
     else if has_RWF_NOWAIT cfg \<and> ev_res ev = - EAGAIN
     then Inr (True, queue_work (Write_work r) (emit [Uv_queue_work (Write_work r)] (fall_back r w)))
     else (case writeFinish r (set_status r (ev_res ev) w) of
             Inl e \<Rightarrow> Inl e
           | Inr w1 \<Rightarrow> writePollCb_loop cfg env (Suc i) rv w1))"
  using assms by (subst writePollCb_loop.simps) (simp add: Let_def cong: sum.case_cong)

lemma loop_end:
  assumes "\<not> i < unat (word_of_int rv :: 32 word)"
  shows "writePollCb_loop cfg env i rv w = Inr (False, w)"
  using assms by (subst writePollCb_loop.simps) simp

lemma loop_as_finish_events:
  assumes q: "uv_queue_work_rv env = (\<lambda>r. 0)"
    and n: "unat (word_of_int rv :: 32 word) = n"
  shows "i \<le> n \<Longrightarrow> n \<le> length (events (f w)) \<Longrightarrow>
    writePollCb_loop cfg env i rv w = finish_events cfg (drop i (take n (events (f w)))) w"
proof (induction "n - i" arbitrary: i w)
  case 0
  then have "\<not> i < unat (word_of_int rv :: 32 word)" "drop i (take n (events (f w))) = []"
    using n by simp_all
  then show ?case
    by (simp add: loop_end)
next
  case (Suc k)
  then have i: "i < n" "Suc i \<le> n" "k = n - Suc i" by simp_all
  let ?ev = "events (f w) ! i"
  have "i < length (take n (events (f w)))"
    using i Suc.prems by simp
  from Cons_nth_drop_Suc [OF this]
  have d: "drop i (take n (events (f w))) = ?ev # drop (Suc i) (take n (events (f w)))"
    using i by simp
  have ih: "writePollCb_loop cfg env (Suc i) rv (write_finished r (set_status r s w)) =
      finish_events cfg (drop (Suc i) (take n (events (f w))))
             (write_finished r (set_status r s w))" for r s
    using Suc.hyps(1) [OF i(3) i(2), of "write_finished r (set_status r s w)"] Suc.prems(2)
    by simp
  have step: "writePollCb_loop cfg env i rv w =
    (if closing (f w)
     then (case writeFinish (ev_data ?ev) (set_status (ev_data ?ev) UV_ECANCELED w) of
             Inl e \<Rightarrow> Inl e
           | Inr w1 \<Rightarrow> writePollCb_loop cfg env (Suc i) rv w1)
     else if has_RWF_NOWAIT cfg \<and> ev_res ?ev = - EAGAIN
     then Inr (True, queue_work (Write_work (ev_data ?ev))
                 (emit [Uv_queue_work (Write_work (ev_data ?ev))] (fall_back (ev_data ?ev) w)))
     else (case writeFinish (ev_data ?ev) (set_status (ev_data ?ev) (ev_res ?ev) w) of
             Inl e \<Rightarrow> Inl e
           | Inr w1 \<Rightarrow> writePollCb_loop cfg env (Suc i) rv w1))"
    using loop_step [of i rv w env cfg] i n q Suc.prems(2) by (simp add: Let_def)
  show ?case
    unfolding step d by (simp add: ih writeFinish_def)
qed

lemma finish_events_frame:
  assumes "finish_events cfg evs w = Inr (b, w')"
  shows "kaio w' = kaio w" "finished w' = finished w" "closing (f w') = closing (f w)"
    "state (f w') = state (f w)" "fd (f w') = fd (f w)" "n_events (f w') = n_events (f w)"
    "event_poller (f w') = event_poller (f w)"
  using assms
  by (induction evs arbitrary: w) (auto split: if_splits sum.splits)

lemma finish_events_effect:
  assumes "finish_events cfg evs w = Inr (b, w')"
    and "distinct (map ev_data evs)"
    and "set (map ev_data evs) \<subseteq> set (write_queue (f w))"
    and "distinct (write_queue (f w))"
  shows "\<exists>es. trace w' = trace w @ es \<and> Close_cb \<notin> set es \<and> \<not> list_ex is_open es \<and>
           set (cb_ids es) \<subseteq> set (map ev_data evs) \<and> distinct (cb_ids es) \<and>
           set (write_queue (f w')) = set (write_queue (f w)) - set (cb_ids es) \<and>
           distinct (write_queue (f w')) \<and>
           (pool w' = pool w \<or>
            (\<exists>r. r \<in> set (map ev_data evs) \<and> r \<notin> set (cb_ids es) \<and>
                 pool w' = pool w @ [Write_work r])) \<and>
           (closing (f w) \<longrightarrow> cb_ids es = map ev_data evs \<and> pool w' = pool w \<and> \<not> b \<and>
              (\<forall>s \<in> set (cb_statuses es). s = UV_ECANCELED))"
  using assms
proof (induction evs arbitrary: w)
  case Nil
  then show ?case by simp
next
  case (Cons ev evs)
  let ?r = "ev_data ev"
  have r: "?r \<in> set (write_queue (f w))" "?r \<notin> set (map ev_data evs)"
    using Cons.prems by (auto simp del: set_map)
  show ?case
  proof (cases "\<not> closing (f w) \<and> has_RWF_NOWAIT cfg \<and> ev_res ev = - EAGAIN")
    case True
    with Cons.prems(1) have "w' = queue_work (Write_work ?r)
        (emit [Uv_queue_work (Write_work ?r)] (fall_back ?r w))"
      by simp
    with True Cons.prems show ?thesis
      by simp
  next
    case False
    define s where "s = (if closing (f w) then UV_ECANCELED else ev_res ev)"
    define w1 where "w1 = write_finished ?r (set_status ?r s w)"
    from False Cons.prems(1) have fe: "finish_events cfg evs w1 = Inr (b, w')"
      by (auto simp: w1_def s_def split: if_splits sum.splits)
    have q1: "write_queue (f w1) = remove1 ?r (write_queue (f w))"
      and c1: "closing (f w1) = closing (f w)" and p1: "pool w1 = pool w"
      and t1: "trace w1 = trace w @ [Write_cb ?r s]"
      by (simp_all add: w1_def)
    have "distinct (map ev_data evs)" "set (map ev_data evs) \<subseteq> set (write_queue (f w1))"
      "distinct (write_queue (f w1))"
      using Cons.prems(2-4) r by (auto simp: q1 simp del: set_map)
    from Cons.IH [OF fe this] obtain es where es:
      "trace w' = trace w1 @ es" "Close_cb \<notin> set es" "\<not> list_ex is_open es"
      "set (cb_ids es) \<subseteq> set (map ev_data evs)" "distinct (cb_ids es)"
      "set (write_queue (f w')) = set (write_queue (f w1)) - set (cb_ids es)"
      "distinct (write_queue (f w'))"
      "pool w' = pool w1 \<or>
            (\<exists>r. r \<in> set (map ev_data evs) \<and> r \<notin> set (cb_ids es) \<and>
                 pool w' = pool w1 @ [Write_work r])"
      "closing (f w1) \<longrightarrow> cb_ids es = map ev_data evs \<and> pool w' = pool w1 \<and> \<not> b \<and>
              (\<forall>s \<in> set (cb_statuses es). s = UV_ECANCELED)"
      by blast
    let ?es = "Write_cb ?r s # es"
    have "trace w' = trace w @ ?es" "Close_cb \<notin> set ?es" "\<not> list_ex is_open ?es"
      using es(1-3) t1 by simp_all
    moreover have "set (cb_ids ?es) \<subseteq> set (map ev_data (ev # evs))" "distinct (cb_ids ?es)"
      using es(4,5) r by (auto simp del: set_map)
    moreover have "set (write_queue (f w')) = set (write_queue (f w)) - set (cb_ids ?es)"
      using es(6) Cons.prems(4) by (auto simp: q1)
    moreover have "pool w' = pool w \<or>
            (\<exists>r. r \<in> set (map ev_data (ev # evs)) \<and> r \<notin> set (cb_ids ?es) \<and>
                 pool w' = pool w @ [Write_work r])"
      using es(8) es(4) r p1 by (auto simp del: set_map)
    moreover have "closing (f w) \<longrightarrow> cb_ids ?es = map ev_data (ev # evs) \<and> pool w' = pool w \<and>
        \<not> b \<and> (\<forall>s \<in> set (cb_statuses ?es). s = UV_ECANCELED)"
      using es(9) c1 p1 by (simp add: s_def)
    ultimately show ?thesis
      using es(7) by blast
  qed
qed

lemma unat_length:
  assumes "n < 2 ^ 32"
  shows "unat (word_of_int (int n) :: 32 word) = n"
proof -
  have "(word_of_int (int n) :: 32 word) = of_nat n"
    by (simp add: word_of_int_nat)
  then show ?thesis
    using assms by (simp add: unat_of_nat)
qed

lemma writePollCb_cases:
  assumes run: "writePollCb cfg env st evmask w = Inr w'"
    and q: "uv_queue_work_rv env = (\<lambda>r. 0)"
    and k: "kernel_ok (poll_getevents_rets env) w"
  obtains (again) "w' = emit [Sys_read_eventfd (event_fd (f w))] w" "state (f w) = READY"
  | (events) evs b w3 where
      "getevents_retry (poll_getevents_rets env) = Some (Ge_events evs)" "evs \<noteq> []"
      "finish_events cfg evs
         (store_events evs (emit [Sys_read_eventfd (event_fd (f w)),
                                  Sys_io_getevents (ctx (f w)) (n_events (f w))] w)) = Inr (b, w3)"
      "b \<Longrightarrow> w' = w3" "\<not> b \<Longrightarrow> maybeClosed w3 = Inr w'" "state (f w) = READY"
proof -
  from run have rdy: "state (f w) = READY"
    by (simp add: writePollCb_def split: if_splits)
  show thesis
  proof (cases "read_rv env \<noteq> 8")
    case True
    with run have "w' = emit [Sys_read_eventfd (event_fd (f w))] w"
      by (simp add: writePollCb_def Let_def split: if_splits)
    then show ?thesis using rdy by (rule again)
  next
    case False
    with run obtain evs where ge: "getevents_retry (poll_getevents_rets env) = Some (Ge_events evs)"
      and ne: "evs \<noteq> []"
      by (auto simp: writePollCb_def Let_def split: if_splits option.splits getevents_ret.splits)
    let ?w2 = "store_events evs (emit [Sys_read_eventfd (event_fd (f w)),
                                  Sys_io_getevents (ctx (f w)) (n_events (f w))] w)"
    from k ge have len: "length evs \<le> length (events (f w))" "length evs < 2 ^ 32"
      by (simp_all add: kernel_ok_def)
    have "writePollCb_loop cfg env 0 (int (length evs)) ?w2 =
        finish_events cfg (drop 0 (take (length evs) (events (f ?w2)))) ?w2"
      by (rule loop_as_finish_events [OF q unat_length [OF len(2)]]) (use len in simp_all)
    then have loop: "writePollCb_loop cfg env 0 (int (length evs)) ?w2 =
        finish_events cfg evs ?w2"
      using len by simp
    have w2: "store_events evs (emit [Sys_io_getevents (ctx (f w)) (n_events (f w))]
        (emit [Sys_read_eventfd (event_fd (f w))] w)) = ?w2"
      by (simp add: emit_def store_events_def)
    from run False ge ne rdy have
      "(case writePollCb_loop cfg env 0 (int (length evs)) ?w2 of
                   Inl x \<Rightarrow> Inl x
                 | Inr (True, w3) \<Rightarrow> Inr w3
                 | Inr (False, w3) \<Rightarrow> maybeClosed w3) = Inr w'"
      by (simp add: writePollCb_def Let_def w2 split: if_splits)
    then have c: "(case finish_events cfg evs ?w2 of
                   Inl x \<Rightarrow> Inl x
                 | Inr (True, w3) \<Rightarrow> Inr w3
                 | Inr (False, w3) \<Rightarrow> maybeClosed w3) = Inr w'"
      unfolding loop .
    show ?thesis
    proof (cases "finish_events cfg evs ?w2")
      case (Inl e)
      with c show ?thesis by simp
    next
      case (Inr p)
      obtain b w3 where p: "p = (b, w3)" by (cases p)
      from c have "b \<Longrightarrow> w' = w3" "\<not> b \<Longrightarrow> maybeClosed w3 = Inr w'"
        unfolding Inr p by simp_all
      with ge ne Inr [unfolded p] show ?thesis using rdy by (intro events)
    qed
  qed
qed

subsection \<open>The invariant of the reactor\<close>

lemma move_work:
  assumes "x \<in> set p" "distinct (p @ q)"
  shows "distinct (remove1 x p @ q @ [x])"
    and "set (remove1 x p @ q @ [x]) = set (p @ q)"
  using assms by auto

lemma drop_work:
  assumes "x \<in> set q" "distinct (p @ q)"
  shows "distinct (p @ remove1 x q)"
    and "set (p @ remove1 x q) = set (p @ q) - {x}"
  using assms by auto

lemma write_ids_cong: "set a = set b \<Longrightarrow> set (write_ids a) = set (write_ids b)"
  by auto

lemma inv_moved:
  assumes i: "inv w" and x: "x \<in> set (pool w)"
    and e: "f w' = f w" "kaio w' = kaio w" "pool w' = remove1 x (pool w)"
      "finished w' = finished w @ [x]" "created w' = created w"
  shows "inv w'"
proof -
  from i have d: "distinct (pool w @ finished w)"
    by (simp add: inv_def)
  note m = move_work [OF x d]
  note m2 = write_ids_cong [OF m(2)]
  show ?thesis
    using i m m2 e unfolding inv_def
    by (simp del: write_ids_append set_append distinct_append)
qed

lemma invD:
  assumes "inv w"
  shows "distinct (write_queue (f w))" "distinct (kaio w)" "distinct (pool w @ finished w)"
    "set (kaio w) \<subseteq> set (write_queue (f w))"
    "set (write_ids (pool w @ finished w)) \<subseteq> set (write_queue (f w))"
    "set (kaio w) \<inter> set (write_ids (pool w @ finished w)) = {}"
    "Create_work \<in> set (pool w @ finished w) \<Longrightarrow>
        state (f w) = CREATING \<and> created w \<and> write_queue (f w) = []"
    "uv_is_closing (event_poller (f w)) \<Longrightarrow>
        closing (f w) \<and> write_queue (f w) = [] \<and> state (f w) \<noteq> CREATING"
    "\<not> created w \<Longrightarrow> fd (f w) = - 1 \<and> write_queue (f w) = []"
  using assms unfolding inv_def by simp_all

lemma invI:
  assumes "distinct (write_queue (f w))" "distinct (kaio w)" "distinct (pool w @ finished w)"
    "set (kaio w) \<subseteq> set (write_queue (f w))"
    "set (write_ids (pool w @ finished w)) \<subseteq> set (write_queue (f w))"
    "set (kaio w) \<inter> set (write_ids (pool w @ finished w)) = {}"
    "Create_work \<in> set (pool w @ finished w) \<Longrightarrow>
        state (f w) = CREATING \<and> created w \<and> write_queue (f w) = []"
    "uv_is_closing (event_poller (f w)) \<Longrightarrow>
        closing (f w) \<and> write_queue (f w) = [] \<and> state (f w) \<noteq> CREATING"
    "\<not> created w \<Longrightarrow> fd (f w) = - 1 \<and> write_queue (f w) = []"
  shows "inv w"
  unfolding inv_def by (intro conjI impI assms)

lemma inv_mem:
  assumes "inv w"
  shows "r \<in> set (kaio w) \<Longrightarrow> r \<in> set (write_queue (f w))"
    "r \<in> set (kaio w) \<Longrightarrow> Write_work r \<notin> set (pool w) \<and> Write_work r \<notin> set (finished w)"
    "Write_work r \<in> set (pool w) \<Longrightarrow> r \<in> set (write_queue (f w))"
    "Write_work r \<in> set (finished w) \<Longrightarrow> r \<in> set (write_queue (f w))"
    "x \<in> set (pool w) \<Longrightarrow> x \<notin> set (finished w)"
  using assms unfolding inv_def by auto

lemma opt_Some [simp]: "opt x = Some w' \<longleftrightarrow> x = Inr w'"
  by (cases x) simp_all

lemma world_of_Inr [simp]: "world_of x = Inr w' \<longleftrightarrow> (\<exists>rv. x = Inr (rv, w'))"
  by (cases x) (auto simp: world_of_def)

lemma inv_create:
  assumes i: "inv w" and r: "react cfg (Call_create env path sz m cb) w = Some w'"
  shows "inv w'"
proof -
  from r obtain rv where nc: "\<not> created w"
    and c: "uvFileCreate cfg env path sz m cb w = Inr (rv, w')"
    by (auto split: if_splits)
  note e = uvFileCreate_effect [OF c]
  from i nc have "Create_work \<notin> set (pool w @ finished w)" "write_queue (f w) = []"
    "\<not> uv_is_closing (event_poller (f w))"
    using e(1) by (auto simp: inv_def)
  with i e show ?thesis
    unfolding inv_def by (elim disjE conjE) (simp_all add: CREATING_def)
qed

lemma inv_write:
  assumes i: "inv w" and r: "react cfg (Call_write env req bufs n offset cb) w = Some w'"
  shows "inv w'"
proof -
  from r obtain rv where nq: "req \<notin> set (write_queue (f w))"
    and c: "uvFileWrite cfg env req bufs n offset cb w = Inr (rv, w')"
    by (auto split: if_splits)
  note a = uvFileWrite_asserts [OF c]
  note e = uvFileWrite_effect [OF c]
  from e(8) obtain es where es: "trace w' = trace w @ es" "quiet es" by blast
  have cr: "created w' = created w"
    using es by (rule created_quiet)
  from i a have cw: "created w" "Create_work \<notin> set (pool w @ finished w)"
    "\<not> uv_is_closing (event_poller (f w))"
    by (auto simp: inv_def CREATING_def READY_def)
  have rm: "remove1 req (write_queue (f w) @ [req]) = write_queue (f w)"
    using nq by (simp add: remove1_append)
  from i nq have fresh: "req \<notin> set (kaio w)" "Write_work req \<notin> set (pool w @ finished w)"
    by (auto simp: inv_def)
  from e(7) show ?thesis
  proof (elim disjE conjE)
    assume "write_queue (f w') = write_queue (f w) @ [req]" "kaio w' = kaio w @ [req]"
      "pool w' = pool w"
    with i nq fresh cw cr e(1-6) a(2) show ?thesis
      unfolding inv_def by (auto simp: CREATING_def READY_def)
  next
    assume "write_queue (f w') = write_queue (f w) @ [req]" "kaio w' = kaio w"
      "pool w' = pool w @ [Write_work req]"
    with i nq fresh cw cr e(1-6) a(2) show ?thesis
      unfolding inv_def by (auto simp: CREATING_def READY_def)
  next
    assume "write_queue (f w') = remove1 req (write_queue (f w) @ [req])" "kaio w' = kaio w"
      "pool w' = pool w"
    with i nq fresh cw cr e(1-6) a(2) rm show ?thesis
      unfolding inv_def by (auto simp: CREATING_def READY_def)
  qed
qed

lemma inv_close:
  assumes i: "inv w" and r: "react cfg (Call_close crv cb) w = Some w'"
  shows "inv w'"
proof -
  from r have c: "uvFileClose crv cb w = Inr w'" by simp
  note e = uvFileClose_effect [OF c]
  from e(11) obtain es where es: "trace w' = trace w @ es" "quiet es" by blast
  have cr: "created w' = created w"
    using es by (rule created_quiet)
  from i e(1) have "\<not> uv_is_closing (event_poller (f w))"
    by (auto simp: inv_def)
  with i cr e(1-9) e(10) show ?thesis
    unfolding inv_def by (elim disjE conjE) simp_all
qed

lemma inv_work_create:
  assumes i: "inv w" and r: "react cfg (Work_create env) w = Some w'"
  shows "inv w'"
proof -
  from r have p: "Create_work \<in> set (pool w)"
    and c: "createWorkCb cfg env (work_done Create_work w) = Inr w'"
    by (auto split: if_splits)
  note e = createWorkCb_effect [OF c]
  from e(6) obtain es where es: "trace w' = trace (work_done Create_work w) @ es" "quiet es"
    by blast
  have cr: "created w' = created w"
    using created_quiet [OF es] by (simp add: created_def)
  show ?thesis
    by (rule inv_moved [OF i p]) (use e cr in simp_all)
qed

lemma inv_work_write:
  assumes i: "inv w" and r: "react cfg (Work_write env x) w = Some w'"
  shows "inv w'"
proof -
  from r have p: "Write_work x \<in> set (pool w)"
    and c: "writeWorkCb env x (work_done (Write_work x) w) = Inr w'"
    by (auto split: if_splits)
  note e = writeWorkCb_effect [OF c]
  from e(5) obtain es where es: "trace w' = trace (work_done (Write_work x) w) @ es" "quiet es"
    by blast
  have cr: "created w' = created w"
    using created_quiet [OF es] by (simp add: created_def)
  show ?thesis
    by (rule inv_moved [OF i p]) (use e cr in simp_all)
qed

lemma inv_after_create:
  assumes i: "inv w" and r: "react cfg (After_create prv) w = Some w'"
  shows "inv w'"
proof -
  let ?w0 = "after_work Create_work w"
  from r have p: "Create_work \<in> set (finished w)"
    and c: "createAfterWorkCb prv 0 ?w0 = Inr w'"
    by (auto split: if_splits)
  note e = createAfterWorkCb_effect [OF c, simplified]
  note d = invD [OF i]
  from e(10) obtain es where es: "trace w' = trace w @ es" "quiet es"
    by blast
  have cr: "created w' = created w"
    using es by (rule created_quiet)
  note m = drop_work [OF p d(3)]
  have pf: "pool w' @ finished w' = pool w @ remove1 Create_work (finished w)"
    using e(2,3) by simp
  have m2: "set (write_ids (pool w' @ finished w')) = set (write_ids (pool w @ finished w))"
    unfolding pf by auto
  from d(7) p have st: "state (f w) = CREATING" "created w" "write_queue (f w) = []"
    by auto
  with d(8) have ncl: "\<not> uv_is_closing (event_poller (f w))"
    by blast
  show ?thesis
  proof (rule invI)
    show "distinct (write_queue (f w'))" using e(4) d(1) by simp
    show "distinct (kaio w')" using e(1) d(2) by simp
    show "distinct (pool w' @ finished w')" unfolding pf by (rule m(1))
    show "set (kaio w') \<subseteq> set (write_queue (f w'))" using e(1,4) d(4) by simp
    show "set (write_ids (pool w' @ finished w')) \<subseteq> set (write_queue (f w'))"
      unfolding m2 using e(4) d(5) by simp
    show "set (kaio w') \<inter> set (write_ids (pool w' @ finished w')) = {}"
      unfolding m2 using e(1) d(6) by simp
    show "state (f w') = CREATING \<and> created w' \<and> write_queue (f w') = []"
      if "Create_work \<in> set (pool w' @ finished w')"
    proof -
      have "Create_work \<notin> set (pool w @ remove1 Create_work (finished w))"
        unfolding m(2) by simp
      with that show ?thesis unfolding pf by blast
    qed
    show "closing (f w') \<and> write_queue (f w') = [] \<and> state (f w') \<noteq> CREATING"
      if "uv_is_closing (event_poller (f w'))"
      using that e(4,5,6,9) ncl st(3) by (auto simp: CREATING_def READY_def ERRORED_def)
    show "fd (f w') = - 1 \<and> write_queue (f w') = []" if "\<not> created w'"
      using that cr st(2) by simp
  qed
qed

lemma inv_after_write:
  assumes i: "inv w" and r: "react cfg (After_write x) w = Some w'"
  shows "inv w'"
proof -
  let ?w0 = "after_work (Write_work x) w"
  from r have p: "Write_work x \<in> set (finished w)"
    and c: "writeAfterWorkCb 0 x ?w0 = Inr w'"
    by (auto split: if_splits)
  note e = writeAfterWorkCb_effect [OF c, simplified]
  note d = invD [OF i]
  from e(11) obtain s es where es: "trace w' = trace w @ Write_cb x s # es" "quiet es"
    by blast
  have cr: "created w' = created w"
    using es by (simp add: created_def quiet_def)
  note m = drop_work [OF p d(3)]
  have pf: "pool w' @ finished w' = pool w @ remove1 (Write_work x) (finished w)"
    using e(3,4) by simp
  have ids: "set (write_ids (pool w' @ finished w')) = set (write_ids (pool w @ finished w)) - {x}"
    unfolding pf using d(3) p by auto
  have xq: "x \<in> set (write_queue (f w))" "x \<notin> set (kaio w)"
    using d(5,6) p by auto
  with d(8) have ncl: "\<not> uv_is_closing (event_poller (f w))"
    by auto
  have q: "set (write_queue (f w')) = set (write_queue (f w)) - {x}"
    using e(5) d(1) by simp
  from d(7) e(1) have ncw: "Create_work \<notin> set (pool w @ finished w)"
    by (auto simp: CREATING_def READY_def)
  show ?thesis
  proof (rule invI)
    show "distinct (write_queue (f w'))" using e(5) d(1) by simp
    show "distinct (kaio w')" using e(2) d(2) by simp
    show "distinct (pool w' @ finished w')" unfolding pf by (rule m(1))
    show "set (kaio w') \<subseteq> set (write_queue (f w'))"
      unfolding q using e(2) d(4) xq by auto
    show "set (write_ids (pool w' @ finished w')) \<subseteq> set (write_queue (f w'))"
      unfolding ids q using d(5) by auto
    show "set (kaio w') \<inter> set (write_ids (pool w' @ finished w')) = {}"
      unfolding ids using e(2) d(6) by auto
    show "state (f w') = CREATING \<and> created w' \<and> write_queue (f w') = []"
      if "Create_work \<in> set (pool w' @ finished w')"
    proof -
      have "Create_work \<notin> set (pool w @ remove1 (Write_work x) (finished w))"
        unfolding m(2) using ncw by blast
      with that show ?thesis unfolding pf by blast
    qed
    show "closing (f w') \<and> write_queue (f w') = [] \<and> state (f w') \<noteq> CREATING"
      if "uv_is_closing (event_poller (f w'))"
      using that e(1,5,6,7,10) ncl by (auto simp: CREATING_def READY_def)
    show "fd (f w') = - 1 \<and> write_queue (f w') = []" if "\<not> created w'"
      using that cr d(9) xq by auto
  qed
qed

lemma inv_close_poller:
  assumes i: "inv w" and r: "react cfg (Close_poller crv drv) w = Some w'"
  shows "inv w'"
proof -
  let ?w0 = "w\<lparr>f := (f w)\<lparr>event_poller := Poll_closed\<rparr>\<rparr>"
  from r have p: "event_poller (f w) = Poll_closing"
    and c: "pollCloseCb crv drv ?w0 = Inr w'"
    by (auto split: if_splits)
  note e = pollCloseCb_effect [OF c]
  from i p have st: "closing (f w)" "write_queue (f w) = []" "state (f w) \<noteq> CREATING"
    by (auto simp: inv_def)
  have cr: "created w' = created w"
    using e(8) by (simp add: created_def)
  show ?thesis
    using i st cr e(4-7) unfolding inv_def
    by (auto simp: CREATING_def CLOSED_def)
qed

lemma inv_poll:
  assumes i: "inv w" and r: "react cfg (Poll_ready rd_rv rd_errno rets) w = Some w'"
  shows "inv w'"
proof -
  let ?env = "\<lparr>read_rv = rd_rv, read_errno = rd_errno, poll_getevents_rets = rets,
                   uv_queue_work_rv = (\<lambda>r. 0)\<rparr>"
  from r have p: "event_poller (f w) = Poll_started" and k: "kernel_ok rets w"
    and c: "writePollCb cfg ?env 0 UV_READABLE w = Inr w'"
    by (auto split: if_splits)
  note d = invD [OF i]
  note mem = inv_mem [OF i]
  have q0: "uv_queue_work_rv ?env = (\<lambda>r. 0)" and k': "kernel_ok (poll_getevents_rets ?env) w"
    using k by simp_all
  from c q0 k' show ?thesis
  proof (cases rule: writePollCb_cases)
    case again
    then have "f w' = f w" "kaio w' = kaio w" "pool w' = pool w" "finished w' = finished w"
      "created w' = created w"
      by (simp_all add: created_def)
    with i show ?thesis
      unfolding inv_def by simp
  next
    case (events evs b w3)
    let ?ids = "map ev_data evs"
    let ?w2 = "store_events evs (emit [Sys_read_eventfd (event_fd (f w)),
                                  Sys_io_getevents (ctx (f w)) (n_events (f w))] w)"
    from k events(1) have ids: "distinct ?ids" "set ?ids \<subseteq> set (kaio w)"
      by (simp_all add: kernel_ok_def)
    have w2: "write_queue (f ?w2) = write_queue (f w)" "pool ?w2 = pool w"
      "finished ?w2 = finished w" "kaio ?w2 = filter (\<lambda>r. r \<notin> set ?ids) (kaio w)"
      "closing (f ?w2) = closing (f w)" "state (f ?w2) = state (f w)" "fd (f ?w2) = fd (f w)"
      "event_poller (f ?w2) = event_poller (f w)"
      "trace ?w2 = trace w @ [Sys_read_eventfd (event_fd (f w)),
                                  Sys_io_getevents (ctx (f w)) (n_events (f w))]"
      by simp_all
    note fr = finish_events_frame [OF events(3), unfolded w2]
    have "set ?ids \<subseteq> set (write_queue (f ?w2))" "distinct (write_queue (f ?w2))"
      using ids(2) d(1,4) by (auto simp: w2(1) simp del: set_map)
    from finish_events_effect [OF events(3) ids(1) this, unfolded w2] obtain es where es:
      "trace w3 = (trace w @ [Sys_read_eventfd (event_fd (f w)),
                                  Sys_io_getevents (ctx (f w)) (n_events (f w))]) @ es"
      "Close_cb \<notin> set es" "\<not> list_ex is_open es"
      "set (cb_ids es) \<subseteq> set ?ids" "distinct (cb_ids es)"
      "set (write_queue (f w3)) = set (write_queue (f w)) - set (cb_ids es)"
      "distinct (write_queue (f w3))"
      "pool w3 = pool w \<or>
            (\<exists>r. r \<in> set ?ids \<and> r \<notin> set (cb_ids es) \<and> pool w3 = pool w @ [Write_work r])"
      by blast
    have cr3: "created w3 = created w"
      using es(1,3) by (simp add: created_def)
    from d(7) events(6) have ncw: "Create_work \<notin> set (pool w @ finished w)"
      by (auto simp: CREATING_def READY_def)
    have i3: "inv w3"
    proof (rule invI)
      show "distinct (write_queue (f w3))" by (rule es(7))
      show "distinct (kaio w3)" using fr(1) d(2) by simp
      have dpf: "distinct (pool w)" "distinct (finished w)"
        using d(3) by simp_all
      from es(8) show "distinct (pool w3 @ finished w3)"
      proof (elim disjE exE conjE)
        assume "pool w3 = pool w"
        then show ?thesis using fr(2) d(3) by simp
      next
        fix r assume r: "r \<in> set ?ids" "pool w3 = pool w @ [Write_work r]"
        then have "r \<in> set (kaio w)" using ids(2) by blast
        from mem(2) [OF this] mem(5) dpf r(2) fr(2) show ?thesis
          by auto
      qed
      show "set (kaio w3) \<subseteq> set (write_queue (f w3))"
        unfolding es(6) fr(1) using mem(1) es(4) by (auto simp del: set_map)
      have "r \<in> set (write_queue (f w)) \<and> r \<notin> set (cb_ids es)"
        if "Write_work r \<in> set (pool w3) \<or> Write_work r \<in> set (finished w3)" for r
      proof -
        from that es(8) fr(2) consider "Write_work r \<in> set (pool w) \<or> Write_work r \<in> set (finished w)"
          | "r \<in> set ?ids" "r \<notin> set (cb_ids es)"
          by (auto simp del: set_map)
        then show ?thesis
        proof cases
          case 1
          then have "r \<in> set (write_queue (f w))" "r \<notin> set (kaio w)"
            using mem(2,3,4) by blast+
          then show ?thesis using es(4) ids(2) by blast
        next
          case 2
          then show ?thesis using ids(2) mem(1) by blast
        qed
      qed
      then show "set (write_ids (pool w3 @ finished w3)) \<subseteq> set (write_queue (f w3))"
        unfolding es(6) by auto
      have "r \<notin> set (kaio w3)"
        if "Write_work r \<in> set (pool w3) \<or> Write_work r \<in> set (finished w3)" for r
      proof -
        from that es(8) fr(2) consider "Write_work r \<in> set (pool w) \<or> Write_work r \<in> set (finished w)"
          | "r \<in> set ?ids"
          by (auto simp del: set_map)
        then show ?thesis
        proof cases
          case 1
          then show ?thesis unfolding fr(1) using mem(2) by auto
        next
          case 2
          then show ?thesis unfolding fr(1) by simp
        qed
      qed
      then show "set (kaio w3) \<inter> set (write_ids (pool w3 @ finished w3)) = {}"
        by auto
      show "state (f w3) = CREATING \<and> created w3 \<and> write_queue (f w3) = []"
        if "Create_work \<in> set (pool w3 @ finished w3)"
        using that es(8) fr(2) ncw by auto
      show "closing (f w3) \<and> write_queue (f w3) = [] \<and> state (f w3) \<noteq> CREATING"
        if "uv_is_closing (event_poller (f w3))"
        using that fr(7) p by simp
      show "fd (f w3) = - 1 \<and> write_queue (f w3) = []" if "\<not> created w3"
        using that cr3 d(9) fr(5) es(6) by simp
    qed
    show ?thesis
    proof (cases b)
      case True
      with events(4) i3 show ?thesis by simp
    next
      case False
      note m = maybeClosed_effect [OF events(5) [OF False]]
      note d3 = invD [OF i3]
      from m(12) obtain es' where es': "trace w' = trace w3 @ es'" "quiet es'" by blast
      have cr: "created w' = created w3"
        using es' by (rule created_quiet)
      show ?thesis
      proof (rule invI)
        show "distinct (write_queue (f w'))" using m(6) d3(1) by simp
        show "distinct (kaio w')" using m(1) d3(2) by simp
        show "distinct (pool w' @ finished w')" using m(2,3) d3(3) by simp
        show "set (kaio w') \<subseteq> set (write_queue (f w'))" using m(1,6) d3(4) by simp
        show "set (write_ids (pool w' @ finished w')) \<subseteq> set (write_queue (f w'))"
          using m(2,3,6) d3(5) by simp
        show "set (kaio w') \<inter> set (write_ids (pool w' @ finished w')) = {}"
          using m(1,2,3) d3(6) by simp
        show "state (f w') = CREATING \<and> created w' \<and> write_queue (f w') = []"
          if "Create_work \<in> set (pool w' @ finished w')"
          using that m(2,3,6,8) cr d3(7) by simp
        show "closing (f w') \<and> write_queue (f w') = [] \<and> state (f w') \<noteq> CREATING"
          if "uv_is_closing (event_poller (f w'))"
          using that m(6,7,8,11) d3(8) by auto
        show "fd (f w') = - 1 \<and> write_queue (f w') = []" if "\<not> created w'"
          using that cr m(6,9) d3(9) by simp
      qed
    qed
  qed
qed

lemma inv_react:
  assumes "inv w" "react cfg a w = Some w'"
  shows "inv w'"
proof (cases a)
  case (Call_create env path sz m cb)
  with assms show ?thesis using inv_create by blast
next
  case (Call_write env req bufs n offset cb)
  with assms show ?thesis using inv_write by blast
next
  case (Call_close crv cb)
  with assms show ?thesis using inv_close by blast
next
  case (Work_create env)
  with assms show ?thesis using inv_work_create by blast
next
  case (After_create prv)
  with assms show ?thesis using inv_after_create by blast
next
  case (Work_write env x)
  with assms show ?thesis using inv_work_write by blast
next
  case (After_write x)
  with assms show ?thesis using inv_after_write by blast
next
  case (Poll_ready a b c)
  with assms show ?thesis using inv_poll by blast
next
  case (Close_poller crv drv)
  with assms show ?thesis using inv_close_poller by blast
qed

lemma inv_run:
  assumes "inv w" "run cfg as w = Some w'"
  shows "inv w'"
  using assms
proof (induction as arbitrary: w)
  case Nil
  then show ?case by simp
next
  case (Cons a as)
  then obtain w1 where "react cfg a w = Some w1" "run cfg as w1 = Some w'"
    by (auto split: option.splits)
  with Cons.IH inv_react [OF Cons.prems(1)] show ?case by blast
qed

lemma inv_boot:
  assumes "boot env d a w0 = Some w"
  shows "inv w"
  using assms
  by (auto simp: boot_def uvFileInit_def Let_def inv_def created_def
      split: sum.splits if_splits prod.splits)

subsection \<open>Runs of the reactor\<close>

lemma new_events_append: "trace w' = trace w @ es \<Longrightarrow> new_events w w' = es"
  by (simp add: new_events_def)

lemma cb_none: "cb_ids es = [] \<Longrightarrow> cb_statuses es = []"
  by (induction es rule: cb_ids.induct) simp_all

lemma accounted_quiet:
  assumes "trace w' = trace w @ es" "quiet es" "write_queue (f w') = write_queue (f w)"
    "closing (f w) \<Longrightarrow> closing (f w')"
  shows "accounted w w' (new_events w w')"
  unfolding new_events_append [OF assms(1)]
  using assms by (auto simp: accounted_def quiet_def cb_none)

lemma accounted_not_closing:
  assumes "trace w' = trace w @ es" "cb_ids es = []"
    "set (write_queue (f w)) \<subseteq> set (write_queue (f w'))" "\<not> closing (f w)"
  shows "accounted w w' (new_events w w')"
  unfolding new_events_append [OF assms(1)]
  using assms by (auto simp: accounted_def cb_none)

lemma acc_create:
  assumes r: "react cfg (Call_create env path sz m cb) w = Some w'"
  shows "accounted w w' (new_events w w')"
proof -
  from r obtain rv where c: "uvFileCreate cfg env path sz m cb w = Inr (rv, w')"
    by (auto split: if_splits)
  note e = uvFileCreate_effect [OF c]
  from e(9) obtain es where es: "trace w' = trace w @ es" "cb_ids es = []" by blast
  then show ?thesis
    using accounted_not_closing [OF es] e(1,3) by simp
qed

lemma acc_write:
  assumes r: "react cfg (Call_write env req bufs n offset cb) w = Some w'"
  shows "accounted w w' (new_events w w')"
proof -
  from r obtain rv where nq: "req \<notin> set (write_queue (f w))"
    and c: "uvFileWrite cfg env req bufs n offset cb w = Inr (rv, w')"
    by (auto split: if_splits)
  note a = uvFileWrite_asserts [OF c]
  note e = uvFileWrite_effect [OF c]
  from e(8) obtain es where es: "trace w' = trace w @ es" "quiet es" by blast
  have "remove1 req (write_queue (f w) @ [req]) = write_queue (f w)"
    using nq by (simp add: remove1_append)
  with e(7) have "set (write_queue (f w)) \<subseteq> set (write_queue (f w'))"
    by auto
  with es a(1) show ?thesis
    using accounted_not_closing [OF es(1)] by (simp add: quiet_def)
qed

lemma acc_close:
  assumes r: "react cfg (Call_close crv cb) w = Some w'"
  shows "accounted w w' (new_events w w')"
proof -
  from r have c: "uvFileClose crv cb w = Inr w'" by simp
  note e = uvFileClose_effect [OF c]
  from e(11) obtain es where es: "trace w' = trace w @ es" "quiet es" by blast
  with e(5,6) show ?thesis
    using accounted_quiet [OF es] by simp
qed

lemma acc_work_create:
  assumes r: "react cfg (Work_create env) w = Some w'"
  shows "accounted w w' (new_events w w')"
proof -
  from r have c: "createWorkCb cfg env (work_done Create_work w) = Inr w'"
    by (auto split: if_splits)
  note e = createWorkCb_effect [OF c, simplified]
  from e(6) obtain es where es: "trace w' = trace w @ es" "quiet es" by blast
  with e(1) show ?thesis
    using accounted_quiet [OF es] by simp
qed

lemma acc_work_write:
  assumes r: "react cfg (Work_write env x) w = Some w'"
  shows "accounted w w' (new_events w w')"
proof -
  from r have c: "writeWorkCb env x (work_done (Write_work x) w) = Inr w'"
    by (auto split: if_splits)
  note e = writeWorkCb_effect [OF c, simplified]
  from e(5) obtain es where es: "trace w' = trace w @ es" "quiet es" by blast
  with e(1) show ?thesis
    using accounted_quiet [OF es] by simp
qed

lemma acc_after_create:
  assumes r: "react cfg (After_create prv) w = Some w'"
  shows "accounted w w' (new_events w w')"
proof -
  from r have c: "createAfterWorkCb prv 0 (after_work Create_work w) = Inr w'"
    by (auto split: if_splits)
  note e = createAfterWorkCb_effect [OF c, simplified]
  from e(10) obtain es where es: "trace w' = trace w @ es" "quiet es" by blast
  with e(4,5) show ?thesis
    using accounted_quiet [OF es] by simp
qed

lemma acc_close_poller:
  assumes r: "react cfg (Close_poller crv drv) w = Some w'"
  shows "accounted w w' (new_events w w')"
proof -
  from r have c: "pollCloseCb crv drv (w\<lparr>f := (f w)\<lparr>event_poller := Poll_closed\<rparr>\<rparr>) = Inr w'"
    by (auto split: if_splits)
  note e = pollCloseCb_effect [OF c, simplified]
  show ?thesis
    unfolding new_events_append [OF e(8)]
    using e(7,8) by (auto simp: accounted_def)
qed

lemma acc_after_write:
  assumes i: "inv w" and r: "react cfg (After_write x) w = Some w'"
  shows "accounted w w' (new_events w w')"
proof -
  from r have p: "Write_work x \<in> set (finished w)"
    and c: "writeAfterWorkCb 0 x (after_work (Write_work x) w) = Inr w'"
    by (auto split: if_splits)
  note e = writeAfterWorkCb_effect [OF c, simplified]
  from e(11) obtain s es where es: "trace w' = trace w @ Write_cb x s # es" "quiet es"
    "closing (f w) \<Longrightarrow> s = UV_ECANCELED"
    by auto
  have x: "x \<in> set (write_queue (f w))" "distinct (write_queue (f w))"
    using inv_mem(4) [OF i p] invD(1) [OF i] by simp_all
  have cb: "cb_ids es = []" "cb_statuses es = []"
    using es(2) by (simp_all add: quiet_def cb_none)
  show ?thesis
    unfolding accounted_def new_events_append [OF es(1)]
    using es(1,3) cb x e(5,6) by auto
qed

lemma acc_poll:
  assumes i: "inv w" and r: "react cfg (Poll_ready rd_rv rd_errno rets) w = Some w'"
  shows "accounted w w' (new_events w w')" "Close_cb \<notin> set (new_events w w')"
proof -
  let ?env = "\<lparr>read_rv = rd_rv, read_errno = rd_errno, poll_getevents_rets = rets,
                   uv_queue_work_rv = (\<lambda>r. 0)\<rparr>"
  from r have k: "kernel_ok rets w"
    and c: "writePollCb cfg ?env 0 UV_READABLE w = Inr w'"
    by (auto split: if_splits)
  note d = invD [OF i]
  note mem = inv_mem [OF i]
  have q0: "uv_queue_work_rv ?env = (\<lambda>r. 0)" and k': "kernel_ok (poll_getevents_rets ?env) w"
    using k by simp_all
  from c q0 k' have "accounted w w' (new_events w w') \<and> Close_cb \<notin> set (new_events w w')"
  proof (cases rule: writePollCb_cases)
    case again
    then have t: "trace w' = trace w @ [Sys_read_eventfd (event_fd (f w))]" and "f w' = f w"
      by simp_all
    then show ?thesis
      unfolding new_events_append [OF t] by (simp add: accounted_def)
  next
    case (events evs b w3)
    let ?ids = "map ev_data evs"
    let ?pre = "[Sys_read_eventfd (event_fd (f w)),
                 Sys_io_getevents (ctx (f w)) (n_events (f w))]"
    let ?w2 = "store_events evs (emit ?pre w)"
    from k events(1) have ids: "distinct ?ids" "set ?ids \<subseteq> set (kaio w)"
      by (simp_all add: kernel_ok_def)
    have w2: "write_queue (f ?w2) = write_queue (f w)" "pool ?w2 = pool w"
      "closing (f ?w2) = closing (f w)" "trace ?w2 = trace w @ ?pre"
      by simp_all
    note fr = finish_events_frame [OF events(3), unfolded w2]
    have "set ?ids \<subseteq> set (write_queue (f ?w2))" "distinct (write_queue (f ?w2))"
      using ids(2) d(1,4) by (auto simp: w2(1) simp del: set_map)
    from finish_events_effect [OF events(3) ids(1) this, unfolded w2] obtain es where es:
      "trace w3 = (trace w @ ?pre) @ es"
      "Close_cb \<notin> set es"
      "set (cb_ids es) \<subseteq> set ?ids" "distinct (cb_ids es)"
      "set (write_queue (f w3)) = set (write_queue (f w)) - set (cb_ids es)"
      "closing (f w) \<longrightarrow> (\<forall>s \<in> set (cb_statuses es). s = UV_ECANCELED)"
      by blast
    have sub: "set (cb_ids es) \<subseteq> set (write_queue (f w))"
      using es(3) ids(2) d(4) by blast
    have a3: "accounted w w3 (?pre @ es) \<and> Close_cb \<notin> set (?pre @ es)"
      unfolding accounted_def using es sub fr(3) by auto
    show ?thesis
    proof (cases b)
      case True
      with events(4) es(1) have "trace w' = trace w @ ?pre @ es" by simp
      from new_events_append [OF this] a3 True events(4) show ?thesis by simp
    next
      case False
      note m = maybeClosed_effect [OF events(5) [OF False]]
      from m(12) obtain es' where es': "trace w' = trace w3 @ es'" "quiet es'" by blast
      have t: "trace w' = trace w @ (?pre @ es) @ es'"
        using es' es(1) by simp
      have c': "cb_ids es' = []" "cb_statuses es' = []" "Close_cb \<notin> set es'"
        using es'(2) by (simp_all add: quiet_def cb_none)
      show ?thesis
        unfolding new_events_append [OF t]
        using a3 t c' m(6,7) unfolding accounted_def by auto
    qed
  qed
  then show "accounted w w' (new_events w w')" "Close_cb \<notin> set (new_events w w')"
    by simp_all
qed

lemma step_accounted:
  assumes "inv w" "react cfg a w = Some w'"
  shows "accounted w w' (new_events w w')"
proof (cases a)
  case (Call_create env path sz m cb)
  with assms show ?thesis using acc_create by blast
next
  case (Call_write env req bufs n offset cb)
  with assms show ?thesis using acc_write by blast
next
  case (Call_close crv cb)
  with assms show ?thesis using acc_close by blast
next
  case (Work_create env)
  with assms show ?thesis using acc_work_create by blast
next
  case (After_create prv)
  with assms show ?thesis using acc_after_create by blast
next
  case (Work_write env x)
  with assms show ?thesis using acc_work_write by blast
next
  case (After_write x)
  with assms show ?thesis using acc_after_write by blast
next
  case (Poll_ready a b c)
  with assms show ?thesis using acc_poll(1) by blast
next
  case (Close_poller crv drv)
  with assms show ?thesis using acc_close_poller by blast
qed

lemma accounted_refl: "accounted w w []"
  by (simp add: accounted_def)

lemma accounted_trans:
  assumes "accounted w w1 es1" "accounted w1 w2 es2"
  shows "accounted w w2 (es1 @ es2)"
proof -
  from assms have t: "trace w2 = trace w @ es1 @ es2"
    and l1: "set (write_queue (f w)) - set (cb_ids es1) \<subseteq> set (write_queue (f w1))"
    and l2: "set (write_queue (f w1)) - set (cb_ids es2) \<subseteq> set (write_queue (f w2))"
    by (simp_all add: accounted_def)
  have l: "set (write_queue (f w)) - set (cb_ids (es1 @ es2)) \<subseteq> set (write_queue (f w2))"
    using l1 l2 by auto
  show ?thesis
  proof (cases "closing (f w)")
    case False
    with t l show ?thesis by (simp add: accounted_def)
  next
    case True
    with assms(1) have c1: "closing (f w1)" "\<forall>s \<in> set (cb_statuses es1). s = UV_ECANCELED"
      "distinct (cb_ids es1)" "set (cb_ids es1) \<inter> set (write_queue (f w1)) = {}"
      "set (cb_ids es1) \<union> set (write_queue (f w1)) = set (write_queue (f w))"
      by (simp_all add: accounted_def)
    with assms(2) have c2: "closing (f w2)" "\<forall>s \<in> set (cb_statuses es2). s = UV_ECANCELED"
      "distinct (cb_ids es2)" "set (cb_ids es2) \<inter> set (write_queue (f w2)) = {}"
      "set (cb_ids es2) \<union> set (write_queue (f w2)) = set (write_queue (f w1))"
      by (simp_all add: accounted_def)
    have "distinct (cb_ids (es1 @ es2))"
      using c1(3,4) c2(3,5) by auto
    moreover have "set (cb_ids (es1 @ es2)) \<inter> set (write_queue (f w2)) = {}"
      using c1(4) c2(4,5) by auto
    moreover have "set (cb_ids (es1 @ es2)) \<union> set (write_queue (f w2)) = set (write_queue (f w))"
      using c1(5) c2(5) by auto
    moreover have "\<forall>s \<in> set (cb_statuses (es1 @ es2)). s = UV_ECANCELED"
      using c1(2) c2(2) by auto
    ultimately show ?thesis
      using t l c2(1) unfolding accounted_def by blast
  qed
qed

lemma run_accounted:
  assumes "inv w" "run cfg as w = Some w'"
  shows "accounted w w' (new_events w w')"
  using assms
proof (induction as arbitrary: w)
  case Nil
  then show ?case by (simp add: new_events_def accounted_refl)
next
  case (Cons a as)
  then obtain w1 where s: "react cfg a w = Some w1" and r: "run cfg as w1 = Some w'"
    by (auto split: option.splits)
  note a1 = step_accounted [OF Cons.prems(1) s]
  note a2 = Cons.IH [OF inv_react [OF Cons.prems(1) s] r]
  from a1 a2 have "trace w1 = trace w @ new_events w w1" "trace w' = trace w1 @ new_events w1 w'"
    by (simp_all add: accounted_def)
  then have "trace w' = trace w @ new_events w w1 @ new_events w1 w'"
    by simp
  then have "new_events w w' = new_events w w1 @ new_events w1 w'"
    by (rule new_events_append)
  with accounted_trans [OF a1 a2] show ?case by simp
qed

lemma inv_closing_idle:
  assumes i: "inv w" and c: "uv_is_closing (event_poller (f w))"
  shows "closing (f w)" "write_queue (f w) = []" "kaio w = []" "pool w = []" "finished w = []"
proof -
  note d = invD [OF i]
  from d(8) [OF c] show q: "closing (f w)" "write_queue (f w) = []" by simp_all
  from d(8) [OF c] have nc: "state (f w) \<noteq> CREATING" by simp
  from d(4) q(2) show "kaio w = []" by simp
  have "x \<notin> set (pool w @ finished w)" for x
  proof (cases x)
    case Create_work
    with d(7) nc show ?thesis by blast
  next
    case (Write_work r)
    with inv_mem(3,4) [OF i, of r] q(2) show ?thesis by auto
  qed
  then have "\<forall>x. x \<notin> set (pool w) \<and> x \<notin> set (finished w)" by simp
  then show "pool w = []" "finished w = []"
    by (metis list.set_intros(1) neq_Nil_conv)+
qed


subsection \<open>When every fetched event is finished, and when one asks for the fall back\<close>

lemma finish_all_proj [simp]:
  "trace (finish_all c evs w) =
     trace w @ map (\<lambda>ev. Write_cb (ev_data ev) (if c then UV_ECANCELED else ev_res ev)) evs"
  "pool (finish_all c evs w) = pool w" "kaio (finish_all c evs w) = kaio w"
  "finished (finish_all c evs w) = finished w" "creq (finish_all c evs w) = creq w"
  "w_cb (wreq (finish_all c evs w) x) = w_cb (wreq w x)"
  "w_iocb (wreq (finish_all c evs w) x) = w_iocb (wreq w x)"
  "closing (f (finish_all c evs w)) = closing (f w)"
  "state (f (finish_all c evs w)) = state (f w)"
  "event_poller (f (finish_all c evs w)) = event_poller (f w)"
  "fd (f (finish_all c evs w)) = fd (f w)" "event_fd (f (finish_all c evs w)) = event_fd (f w)"
  "ctx (f (finish_all c evs w)) = ctx (f w)" "async (f (finish_all c evs w)) = async (f w)"
  "direct (f (finish_all c evs w)) = direct (f w)"
  "n_events (f (finish_all c evs w)) = n_events (f w)"
  "write_queue (f (finish_all c evs w)) = fold remove1 (map ev_data evs) (write_queue (f w))"
  by (induction evs arbitrary: w) simp_all

lemma cb_ids_map [simp]: "cb_ids (map (\<lambda>ev. Write_cb (g ev) (h ev)) evs) = map g evs"
  by (induction evs) simp_all

lemma cb_statuses_map [simp]: "cb_statuses (map (\<lambda>ev. Write_cb (g ev) (h ev)) evs) = map h evs"
  by (induction evs) simp_all

lemma finish_events_all:
  assumes "\<forall>ev \<in> set evs. w_cb (wreq w (ev_data ev)) \<noteq> 0"
    and "closing (f w) \<or> (\<forall>ev \<in> set evs. \<not> would_block cfg ev)"
  shows "finish_events cfg evs w = Inr (False, finish_all (closing (f w)) evs w)"
  using assms
  by (induction evs arbitrary: w) (auto simp: would_block_def writeFinish_def)

lemma finish_events_would_block:
  assumes "\<forall>e \<in> set pre. w_cb (wreq w (ev_data e)) \<noteq> 0 \<and> \<not> would_block cfg e"
    and "would_block cfg ev" and "\<not> closing (f w)"
  shows "finish_events cfg (pre @ ev # post) w =
    Inr (True, queue_work (Write_work (ev_data ev))
                 (emit [Uv_queue_work (Write_work (ev_data ev))]
                    (fall_back (ev_data ev) (finish_all False pre w))))"
  using assms
  by (induction pre arbitrary: w) (auto simp: would_block_def writeFinish_def)

lemma maybeClosed_total: "state (f w) \<noteq> CLOSED \<Longrightarrow> \<exists>w'. maybeClosed w = Inr w'"
  by (simp add: maybeClosed_def)

lemma writePollCb_fetched:
  assumes e: "events_fetched env st m w evs" and q: "uv_queue_work_rv env = (\<lambda>r. 0)"
  shows "writePollCb cfg env st m w =
    (case finish_events cfg evs
            (store_events evs (emit [Sys_read_eventfd (event_fd (f w)),
                                     Sys_io_getevents (ctx (f w)) (n_events (f w))] w)) of
       Inl x \<Rightarrow> Inl x
     | Inr (True, w3) \<Rightarrow> Inr w3
     | Inr (False, w3) \<Rightarrow> maybeClosed w3)"
proof -
  let ?w2 = "store_events evs (emit [Sys_read_eventfd (event_fd (f w)),
                                  Sys_io_getevents (ctx (f w)) (n_events (f w))] w)"
  from e have len: "length evs \<le> length (events (f w))" "length evs < 2 ^ 32"
    by (simp_all add: events_fetched_def)
  have "writePollCb_loop cfg env 0 (int (length evs)) ?w2 =
      finish_events cfg (drop 0 (take (length evs) (events (f ?w2)))) ?w2"
    by (rule loop_as_finish_events [OF q unat_length [OF len(2)]]) (use len in simp_all)
  then have loop: "writePollCb_loop cfg env 0 (int (length evs)) ?w2 = finish_events cfg evs ?w2"
    using len by simp
  have w2: "store_events evs (emit [Sys_io_getevents (ctx (f w)) (n_events (f w))]
      (emit [Sys_read_eventfd (event_fd (f w))] w)) = ?w2"
    by (simp add: emit_def store_events_def)
  from e show ?thesis
    by (simp add: writePollCb_def events_fetched_def Let_def w2 loop)
qed

lemma submissions_append [simp]: "submissions (xs @ ys) = submissions xs @ submissions ys"
  by (induction xs rule: submissions.induct) simp_all

lemma opens_append [simp]: "opens (xs @ ys) = opens xs @ opens ys"
  by (induction xs rule: opens.induct) simp_all

lemma opens_map_cb [simp]: "opens (map (\<lambda>ev. Write_cb (g ev) (h ev)) evs) = []"
  by (induction evs) simp_all

lemma submissions_map_cb [simp]: "submissions (map (\<lambda>ev. Write_cb (g ev) (h ev)) evs) = []"
  by (induction evs) simp_all

lemma writePollCb_finishes_all:
  assumes e: "events_fetched env st m w evs" and q: "uv_queue_work_rv env = (\<lambda>r. 0)"
    and cbs: "\<forall>ev \<in> set evs. w_cb (wreq w (ev_data ev)) \<noteq> 0"
    and c: "closing (f w) \<or> (\<forall>ev \<in> set evs. \<not> would_block cfg ev)"
  shows "\<exists>w'. writePollCb cfg env st m w = Inr w' \<and>
           cb_ids (new_events w w') = map ev_data evs \<and>
           cb_statuses (new_events w w') =
             map (\<lambda>ev. if closing (f w) then UV_ECANCELED else ev_res ev) evs \<and>
           pool w' = pool w \<and> finished w' = finished w \<and> state (f w') = READY \<and>
           write_queue (f w') = fold remove1 (map ev_data evs) (write_queue (f w))"
proof -
  let ?pre = "[Sys_read_eventfd (event_fd (f w)), Sys_io_getevents (ctx (f w)) (n_events (f w))]"
  let ?w2 = "store_events evs (emit ?pre w)"
  let ?w3 = "finish_all (closing (f w)) evs ?w2"
  from e have rdy: "state (f w) = READY" by (simp add: events_fetched_def)
  have fe: "finish_events cfg evs ?w2 = Inr (False, ?w3)"
    using finish_events_all [of evs ?w2 cfg] cbs c by simp
  have "state (f ?w3) \<noteq> CLOSED"
    using rdy by (simp add: READY_def CLOSED_def)
  from maybeClosed_total [OF this] obtain w' where m: "maybeClosed ?w3 = Inr w'" by blast
  have r: "writePollCb cfg env st m w = Inr w'"
    unfolding writePollCb_fetched [OF e q] fe using m by simp
  note me = maybeClosed_effect [OF m]
  from me(12) obtain es where es: "trace w' = trace ?w3 @ es" "quiet es" by blast
  have t: "trace w' = trace w @ ?pre @
      map (\<lambda>ev. Write_cb (ev_data ev) (if closing (f w) then UV_ECANCELED else ev_res ev)) evs @ es"
    using es(1) by simp
  have n: "cb_ids es = []" "cb_statuses es = []"
    using es(2) by (simp_all add: quiet_def cb_none)
  note ne = new_events_append [OF t]
  show ?thesis
    by (rule exI [of _ w']) (use r n ne me(2,3,6,8) rdy in simp)
qed

lemma writePollCb_requeues:
  assumes e: "events_fetched env st m w (pre @ ev # post)" and q: "uv_queue_work_rv env = (\<lambda>r. 0)"
    and cbs: "\<forall>e \<in> set pre. w_cb (wreq w (ev_data e)) \<noteq> 0 \<and> \<not> would_block cfg e"
    and b: "would_block cfg ev" and c: "\<not> closing (f w)"
  shows "\<exists>w'. writePollCb cfg env st m w = Inr w' \<and>
           pool w' = pool w @ [Write_work (ev_data ev)] \<and>
           w_iocb (wreq w' (ev_data ev)) = clear_nowait (w_iocb (wreq w (ev_data ev))) \<and>
           w_cb (wreq w' (ev_data ev)) = w_cb (wreq w (ev_data ev)) \<and>
           cb_ids (new_events w w') = map ev_data pre \<and>
           cb_statuses (new_events w w') = map ev_res pre \<and>
           last (new_events w w') = Uv_queue_work (Write_work (ev_data ev)) \<and>
           state (f w') = READY \<and> \<not> closing (f w') \<and>
           write_queue (f w') = fold remove1 (map ev_data pre) (write_queue (f w))"
proof -
  let ?pre = "[Sys_read_eventfd (event_fd (f w)), Sys_io_getevents (ctx (f w)) (n_events (f w))]"
  let ?w2 = "store_events (pre @ ev # post) (emit ?pre w)"
  let ?w3 = "queue_work (Write_work (ev_data ev))
                 (emit [Uv_queue_work (Write_work (ev_data ev))]
                    (fall_back (ev_data ev) (finish_all False pre ?w2)))"
  from e have rdy: "state (f w) = READY" by (simp add: events_fetched_def)
  have fe: "finish_events cfg (pre @ ev # post) ?w2 = Inr (True, ?w3)"
    using finish_events_would_block [of pre ?w2 cfg ev post] cbs b c by simp
  have r: "writePollCb cfg env st m w = Inr ?w3"
    unfolding writePollCb_fetched [OF e q] fe by simp
  have t: "trace ?w3 = trace w @ ?pre @
      map (\<lambda>e. Write_cb (ev_data e) (if False then UV_ECANCELED else ev_res e)) pre @
      [Uv_queue_work (Write_work (ev_data ev))]"
    by simp
  have i: "w_iocb (wreq ?w3 (ev_data ev)) = clear_nowait (w_iocb (wreq w (ev_data ev)))"
    by (simp add: fall_back_def)
  note ne = new_events_append [OF t]
  show ?thesis
    by (rule exI [of _ ?w3]) (use r i ne rdy c in simp)
qed

lemma writeWorkCb_completes:
  assumes "state (f w) = READY" "io_submit_rv env \<noteq> - 1"
    "1 < n_events (f w) \<longrightarrow> io_setup_rv env \<noteq> - 1"
    "getevents_retry (io_getevents_rets env) = Some (Ge_events [ev])"
  shows "\<exists>w'. writeWorkCb env r w = Inr w' \<and> w_status (wreq w' r) = ev_res ev \<and>
           submissions (new_events w w') = [w_iocb (wreq w r)] \<and> f w' = f w \<and>
           w_cb (wreq w' r) = w_cb (wreq w r) \<and> cb_ids (new_events w w') = [] \<and>
           cb_statuses (new_events w w') = []"
  using assms by (simp add: writeWorkCb_def Let_def new_events_def)

lemma writeAfterWorkCb_calls:
  assumes "state (f w) = READY" "w_cb (wreq w r) \<noteq> 0"
  shows "\<exists>w'. writeAfterWorkCb 0 r w = Inr w' \<and> cb_ids (new_events w w') = [r] \<and>
           cb_statuses (new_events w w') =
             [if closing (f w) then UV_ECANCELED else w_status (wreq w r)] \<and>
           state (f w') = READY"
proof -
  let ?w1 = "write_finished r (if closing (f w) then set_status r UV_ECANCELED w else w)"
  have "state (f ?w1) \<noteq> CLOSED"
    using assms(1) by (simp add: READY_def CLOSED_def)
  from maybeClosed_total [OF this] obtain w' where m: "maybeClosed ?w1 = Inr w'" by blast
  have r: "writeAfterWorkCb 0 r w = Inr w'"
    using assms m by (simp add: writeAfterWorkCb_def Let_def writeFinish_def)
  note e = writeAfterWorkCb_effect [OF r]
  from e(11) obtain es where es: "trace w' = trace w @
        Write_cb r (if closing (f w) then UV_ECANCELED else w_status (wreq w r)) # es" "quiet es"
    by blast
  have n: "cb_ids es = []" "cb_statuses es = []"
    using es(2) by (simp_all add: quiet_def cb_none)
  note ne = new_events_append [OF es(1)]
  show ?thesis
    by (rule exI [of _ w']) (use r n ne e(7) assms(1) in simp)
qed

lemma uvFileWrite_accepts:
  assumes a: "write_asserts w req bufs n" and h: "has_RWF_NOWAIT cfg \<or> \<not> async (f w)"
    and k: "submit_rv env = 1 \<or>
            submit_rv env = - 1 \<and> submit_errno env \<noteq> EOPNOTSUPP \<and> submit_errno env \<noteq> 0"
  shows "\<exists>rv w'. uvFileWrite cfg env req bufs n offset cb w = Inr (rv, w')"
proof -
  have t: "\<exists>rv w'. write_in_threadpool env req u = Inr (rv, w')" for u
    by (simp add: write_in_threadpool_def Let_def write_err_def)
  have e: "\<exists>rv w'. write_err req (uv_translate_sys_error (submit_errno env)) u = Inr (rv, w')"
    if "submit_errno env \<noteq> 0" for u
    using that by (simp add: write_err_def uv_translate_sys_error_def)
  from a h k t e show ?thesis
    by (auto simp: uvFileWrite_def write_asserts_def Let_def)
qed

lemma new_events_trans:
  assumes "trace w1 = trace w @ es1" "trace w2 = trace w1 @ es2"
  shows "new_events w w2 = new_events w w1 @ new_events w1 w2"
  using assms by (simp add: new_events_def)

lemma fold_remove1_keeps: "x \<in> set q \<Longrightarrow> x \<notin> set ys \<Longrightarrow> x \<in> set (fold remove1 ys q)"
  by (induction ys arbitrary: q) auto

lemma worker_completes_write:
  assumes "state (f v) = READY" "w_cb (wreq v r) \<noteq> 0" "io_submit_rv wenv \<noteq> - 1"
    "1 < n_events (f v) \<longrightarrow> io_setup_rv wenv \<noteq> - 1"
    "getevents_retry (io_getevents_rets wenv) = Some (Ge_events [wev])"
  shows "\<exists>va vb. writeWorkCb wenv r v = Inr va \<and>
           submissions (new_events v va) = [w_iocb (wreq v r)] \<and>
           writeAfterWorkCb 0 r va = Inr vb \<and> cb_ids (new_events v vb) = [r] \<and>
           cb_statuses (new_events v vb) = [if closing (f v) then UV_ECANCELED else ev_res wev]"
proof -
  from writeWorkCb_completes [OF assms(1,3,4,5)] obtain va where
    a: "writeWorkCb wenv r v = Inr va" "w_status (wreq va r) = ev_res wev"
      "submissions (new_events v va) = [w_iocb (wreq v r)]" "f va = f v"
      "w_cb (wreq va r) = w_cb (wreq v r)" "cb_ids (new_events v va) = []"
      "cb_statuses (new_events v va) = []"
    by blast
  have "state (f va) = READY" "w_cb (wreq va r) \<noteq> 0"
    using a(4,5) assms(1,2) by simp_all
  from writeAfterWorkCb_calls [OF this] obtain vb where
    b: "writeAfterWorkCb 0 r va = Inr vb" "cb_ids (new_events va vb) = [r]"
      "cb_statuses (new_events va vb) =
         [if closing (f va) then UV_ECANCELED else w_status (wreq va r)]"
    by blast
  from writeWorkCb_effect(5) [OF a(1)] obtain es where es: "trace va = trace v @ es" by blast
  from writeAfterWorkCb_effect(11) [OF b(1)] obtain es' where es': "trace vb = trace va @ es'"
    by blast
  note n = new_events_trans [OF es es']
  show ?thesis
    by (rule exI [of _ va], rule exI [of _ vb]) (use a b n in simp)
qed

subsection \<open>What a step keeps\<close>

lemma same_handle_refl [simp]: "same_handle w w"
  by (simp add: same_handle_def)

lemma same_handle_trans: "same_handle w w1 \<Longrightarrow> same_handle w1 w2 \<Longrightarrow> same_handle w w2"
  by (simp add: same_handle_def)

lemma iocbs_kept_refl [simp]: "iocbs_kept w w"
  by (simp add: iocbs_kept_def)

lemma clear_nowait_idem [simp]: "clear_nowait (clear_nowait k) = clear_nowait k"
  by (simp add: clear_nowait_def and.assoc)

lemma iocbs_kept_trans: "iocbs_kept w w1 \<Longrightarrow> iocbs_kept w1 w2 \<Longrightarrow> iocbs_kept w w2"
  unfolding iocbs_kept_def
proof (intro allI)
  fix x
  assume a: "\<forall>x. w_iocb (wreq w1 x) = w_iocb (wreq w x) \<or>
                 w_iocb (wreq w1 x) = clear_nowait (w_iocb (wreq w x))"
    and b: "\<forall>x. w_iocb (wreq w2 x) = w_iocb (wreq w1 x) \<or>
                 w_iocb (wreq w2 x) = clear_nowait (w_iocb (wreq w1 x))"
  from a [rule_format, of x] b [rule_format, of x]
  show "w_iocb (wreq w2 x) = w_iocb (wreq w x) \<or>
        w_iocb (wreq w2 x) = clear_nowait (w_iocb (wreq w x))"
    by auto
qed

lemma maybeClosed_more:
  assumes "maybeClosed w = Inr w'"
  shows "same_handle w w'" "submissions (trace w') = submissions (trace w)"
    "opens (trace w') = opens (trace w)"
  using assms by (auto simp: maybeClosed_def same_handle_def split: if_splits)

lemma createWorkCb_more:
  assumes "createWorkCb cfg env w = Inr w'"
  shows "submissions (trace w') = submissions (trace w)" "opens (trace w') = opens (trace w)"
  using assms by (auto simp: createWorkCb_def Let_def split: if_splits)

lemma writeWorkCb_more:
  assumes "writeWorkCb env r w = Inr w'"
  shows "w_iocb (wreq w' x) = w_iocb (wreq w x)"
    "submissions (trace w') = submissions (trace w) \<or>
     submissions (trace w') = submissions (trace w) @ [w_iocb (wreq w r)]"
    "opens (trace w') = opens (trace w)"
  using assms
  by (auto simp: writeWorkCb_def Let_def
      split: if_splits option.splits getevents_ret.splits list.splits)

lemma uvFileCreate_more:
  assumes "uvFileCreate cfg env path sz m cb w = Inr (rv, w')"
  shows "wreq w' = wreq w" "submissions (trace w') = submissions (trace w)"
    "opens (trace w') = opens (trace w) @ [open_flags cfg]"
  using assms
  by (auto simp: uvFileCreate_def create_err_def create_err_after_open_def Let_def
      split: if_splits)

lemma uvFileClose_more:
  assumes "uvFileClose close_rv cb w = Inr w'"
  shows "same_handle w w'" "wreq w' = wreq w" "submissions (trace w') = submissions (trace w)"
    "opens (trace w') = opens (trace w)"
proof -
  let ?w1 = "w\<lparr>f := (f w)\<lparr>closing := True, close_cb := cb\<rparr>\<rparr>"
  from assms consider "maybeClosed (emit [Sys_close (fd (f w))] ?w1) = Inr w'"
    | "maybeClosed ?w1 = Inr w'"
    by (auto simp: uvFileClose_def Let_def split: if_splits)
  then have "same_handle w w' \<and> wreq w' = wreq w \<and>
      submissions (trace w') = submissions (trace w) \<and> opens (trace w') = opens (trace w)"
  proof cases
    case 1
    from maybeClosed_more [OF this] maybeClosed_effect(4) [OF this] show ?thesis
      by (simp add: same_handle_def)
  next
    case 2
    from maybeClosed_more [OF this] maybeClosed_effect(4) [OF this] show ?thesis
      by (simp add: same_handle_def)
  qed
  then show "same_handle w w'" "wreq w' = wreq w"
    "submissions (trace w') = submissions (trace w)" "opens (trace w') = opens (trace w)"
    by simp_all
qed

lemma writeAfterWorkCb_more:
  assumes "writeAfterWorkCb st r w = Inr w'"
  shows "same_handle w w'" "w_iocb (wreq w' x) = w_iocb (wreq w x)"
    "submissions (trace w') = submissions (trace w)" "opens (trace w') = opens (trace w)"
proof -
  let ?w1 = "write_finished r (if closing (f w) then set_status r UV_ECANCELED w else w)"
  from assms have m: "maybeClosed ?w1 = Inr w'"
    by (auto simp: writeAfterWorkCb_def Let_def split: if_splits sum.splits)
  from maybeClosed_more [OF m] maybeClosed_effect(4) [OF m]
  show "same_handle w w'" "w_iocb (wreq w' x) = w_iocb (wreq w x)"
    "submissions (trace w') = submissions (trace w)" "opens (trace w') = opens (trace w)"
    by (simp_all add: same_handle_def)
qed

lemma pollCloseCb_more:
  assumes "pollCloseCb close_rv destroy_rv w = Inr w'"
  shows "same_handle w w'" "wreq w' = wreq w" "submissions (trace w') = submissions (trace w)"
    "opens (trace w') = opens (trace w)"
  using assms by (auto simp: pollCloseCb_def Let_def same_handle_def split: if_splits)

lemma createAfterWorkCb_more:
  assumes "createAfterWorkCb prv st w = Inr w'"
  shows "same_handle w w'" "wreq w' = wreq w" "submissions (trace w') = submissions (trace w)"
    "opens (trace w') = opens (trace w)"
proof -
  let ?w1 = "(if closing (f w)
              then create_status UV_ECANCELED (emit [Sys_unlink (c_path (creq w))] w)
              else if c_status (creq w) = 0
              then
                (if prv \<noteq> 0
                 then emit [Sys_io_destroy (ctx (f w)), Sys_close (event_fd (f w)),
                            Sys_close (fd (f w)), Sys_unlink (c_path (creq w))]
                        (create_status prv (emit [Uv_poll_start] w))
                 else emit [Uv_poll_start] (w\<lparr>f := (f w)\<lparr>event_poller := Poll_started\<rparr>\<rparr>))
              else w)"
  let ?w2 = "?w1\<lparr>f := (f ?w1)\<lparr>state := (if c_status (creq ?w1) = 0 then READY else ERRORED)\<rparr>\<rparr>"
  let ?w3 = "(if c_cb (creq ?w2) \<noteq> 0 then emit [Create_cb (c_status (creq ?w2))] ?w2 else ?w2)"
  from assms have m: "maybeClosed ?w3 = Inr w'"
    by (simp add: createAfterWorkCb_def Let_def split: if_splits)
  have w3: "same_handle w ?w3" "wreq ?w3 = wreq w" "submissions (trace ?w3) = submissions (trace w)"
    "opens (trace ?w3) = opens (trace w)"
    by (simp_all add: same_handle_def)
  from maybeClosed_more [OF m] maybeClosed_effect(4) [OF m] w3
  show "same_handle w w'" "wreq w' = wreq w" "submissions (trace w') = submissions (trace w)"
    "opens (trace w') = opens (trace w)"
    by (simp_all add: same_handle_def)
qed

lemma finish_events_more:
  assumes "finish_events cfg evs w = Inr (b, w')"
  shows "same_handle w w'" "iocbs_kept w w'" "submissions (trace w') = submissions (trace w)"
    "opens (trace w') = opens (trace w)" "set (write_queue (f w')) \<subseteq> set (write_queue (f w))"
proof -
  have "same_handle w w' \<and> iocbs_kept w w' \<and> submissions (trace w') = submissions (trace w) \<and>
      opens (trace w') = opens (trace w) \<and> set (write_queue (f w')) \<subseteq> set (write_queue (f w))"
    using assms
  proof (induction evs arbitrary: w)
    case Nil
    then show ?case by simp
  next
    case (Cons ev evs)
    let ?r = "ev_data ev"
    show ?case
    proof (cases "\<not> closing (f w) \<and> has_RWF_NOWAIT cfg \<and> ev_res ev = - EAGAIN")
      case True
      with Cons.prems have "w' = queue_work (Write_work ?r)
          (emit [Uv_queue_work (Write_work ?r)] (fall_back ?r w))"
        by simp
      then show ?thesis
        by (simp add: same_handle_def iocbs_kept_def fall_back_def)
    next
      case False
      define s where "s = (if closing (f w) then UV_ECANCELED else ev_res ev)"
      define w1 where "w1 = write_finished ?r (set_status ?r s w)"
      from False Cons.prems have fe: "finish_events cfg evs w1 = Inr (b, w')"
        by (auto simp: w1_def s_def split: if_splits sum.splits)
      have "same_handle w w1" "iocbs_kept w w1" "submissions (trace w1) = submissions (trace w)"
        "opens (trace w1) = opens (trace w)" "set (write_queue (f w1)) \<subseteq> set (write_queue (f w))"
        using set_remove1_subset [of ?r "write_queue (f w)"]
        by (simp_all add: w1_def same_handle_def iocbs_kept_def)
      with Cons.IH [OF fe] show ?thesis
        using same_handle_trans iocbs_kept_trans by auto
    qed
  qed
  then show "same_handle w w'" "iocbs_kept w w'" "submissions (trace w') = submissions (trace w)"
    "opens (trace w') = opens (trace w)" "set (write_queue (f w')) \<subseteq> set (write_queue (f w))"
    by simp_all
qed

lemma writePollCb_more:
  assumes run: "writePollCb cfg env st evmask w = Inr w'"
    and q: "uv_queue_work_rv env = (\<lambda>r. 0)"
    and k: "kernel_ok (poll_getevents_rets env) w"
  shows "same_handle w w'" "iocbs_kept w w'" "submissions (trace w') = submissions (trace w)"
    "opens (trace w') = opens (trace w)" "set (write_queue (f w')) \<subseteq> set (write_queue (f w))"
proof -
  from run q k
  have "same_handle w w' \<and> iocbs_kept w w' \<and> submissions (trace w') = submissions (trace w) \<and>
      opens (trace w') = opens (trace w) \<and> set (write_queue (f w')) \<subseteq> set (write_queue (f w))"
  proof (cases rule: writePollCb_cases)
    case again
    then show ?thesis by (simp add: same_handle_def iocbs_kept_def)
  next
    case (events evs b w3)
    let ?w2 = "store_events evs (emit [Sys_read_eventfd (event_fd (f w)),
                                  Sys_io_getevents (ctx (f w)) (n_events (f w))] w)"
    have w2: "same_handle w ?w2" "iocbs_kept w ?w2"
      "submissions (trace ?w2) = submissions (trace w)" "opens (trace ?w2) = opens (trace w)"
      "write_queue (f ?w2) = write_queue (f w)"
      by (simp_all add: same_handle_def iocbs_kept_def)
    note m = finish_events_more [OF events(3)]
    have w3: "same_handle w w3" "iocbs_kept w w3" "submissions (trace w3) = submissions (trace w)"
      "opens (trace w3) = opens (trace w)" "set (write_queue (f w3)) \<subseteq> set (write_queue (f w))"
      using same_handle_trans [OF w2(1) m(1)] iocbs_kept_trans [OF w2(2) m(2)] m(3,4,5) w2(3,4,5)
      by simp_all
    show ?thesis
    proof (cases b)
      case True
      with events(4) w3 show ?thesis by simp
    next
      case False
      note c = events(5) [OF False]
      from maybeClosed_more [OF c] maybeClosed_effect(4,6) [OF c] w3 show ?thesis
        by (simp add: same_handle_def iocbs_kept_def)
    qed
  qed
  then show "same_handle w w'" "iocbs_kept w w'" "submissions (trace w') = submissions (trace w)"
    "opens (trace w') = opens (trace w)" "set (write_queue (f w')) \<subseteq> set (write_queue (f w))"
    by simp_all
qed

lemma uvFileWrite_more:
  assumes "uvFileWrite cfg env req bufs n offset cb w = Inr (rv, w')"
  shows "same_handle w w'"
    "x \<noteq> req \<Longrightarrow> wreq w' x = wreq w x"
    "w_iocb (wreq w' req) = write_iocb cfg (f w) req bufs n offset \<or>
     w_iocb (wreq w' req) = clear_nowait (write_iocb cfg (f w) req bufs n offset)"
    "submissions (trace w') = submissions (trace w) \<or>
     submissions (trace w') = submissions (trace w) @ [write_iocb cfg (f w) req bufs n offset]"
    "has_RWF_NOWAIT cfg \<or> \<not> async (f w)"
    "w_cb (wreq w' req) = cb" "opens (trace w') = opens (trace w)"
proof -
  note a = uvFileWrite_asserts [OF assms]
  let ?w1 = "w\<lparr>wreq := (wreq w)(req := (wreq w req)\<lparr>w_cb := cb,
                         w_iocb := write_iocb cfg (f w) req bufs n offset\<rparr>),
                   f := (f w)\<lparr>write_queue := write_queue (f w) @ [req]\<rparr>\<rparr>"
  let ?w2 = "emit [Sys_io_submit (ctx (f w)) (w_iocb (wreq ?w1 req))] ?w1"
  let ?goal = "same_handle w w' \<and> (x \<noteq> req \<longrightarrow> wreq w' x = wreq w x) \<and>
    (w_iocb (wreq w' req) = write_iocb cfg (f w) req bufs n offset \<or>
     w_iocb (wreq w' req) = clear_nowait (write_iocb cfg (f w) req bufs n offset)) \<and>
    (submissions (trace w') = submissions (trace w) \<or>
     submissions (trace w') = submissions (trace w) @ [write_iocb cfg (f w) req bufs n offset]) \<and>
    w_cb (wreq w' req) = cb \<and> opens (trace w') = opens (trace w)"
  from assms show "has_RWF_NOWAIT cfg \<or> \<not> async (f w)"
    by (auto simp: uvFileWrite_def Let_def split: if_splits)
  have tp: "same_handle u u' \<and> wreq u' = wreq u \<and>
      submissions (trace u') = submissions (trace u) \<and> opens (trace u') = opens (trace u)"
    if "write_in_threadpool env req u = Inr (rv, u')" for u u'
    using that
    by (auto simp: write_in_threadpool_def write_err_def Let_def same_handle_def split: if_splits)
  from assms a consider
      (p) "write_in_threadpool env req ?w1 = Inr (rv, w')"
    | (k) "w' = ?w2\<lparr>kaio := kaio ?w2 @ [req]\<rparr>"
    | (g) "write_in_threadpool env req (fall_back req ?w2) = Inr (rv, w')"
    | (e) "write_err req (uv_translate_sys_error (submit_errno env)) ?w2 = Inr (rv, w')"
    by (simp add: uvFileWrite_def Let_def split: if_splits)
  then have ?goal
  proof cases
    case p
    from tp [OF this] show ?thesis by (simp add: same_handle_def)
  next
    case k
    then show ?thesis by (simp add: same_handle_def)
  next
    case g
    from tp [OF this] show ?thesis by (simp add: same_handle_def fall_back_def)
  next
    case e
    from write_err_effect(3) [OF this] show ?thesis by (simp add: same_handle_def)
  qed
  then show "same_handle w w'"
    "x \<noteq> req \<Longrightarrow> wreq w' x = wreq w x"
    "w_iocb (wreq w' req) = write_iocb cfg (f w) req bufs n offset \<or>
     w_iocb (wreq w' req) = clear_nowait (write_iocb cfg (f w) req bufs n offset)"
    "submissions (trace w') = submissions (trace w) \<or>
     submissions (trace w') = submissions (trace w) @ [write_iocb cfg (f w) req bufs n offset]"
    "w_cb (wreq w' req) = cb" "opens (trace w') = opens (trace w)"
    by simp_all
qed

lemma clear_nowait_blocking: "blocking_iocb (clear_nowait cb)"
  by (simp add: blocking_iocb_def clear_nowait_def and.assoc)

lemma clear_nowait_dsync: "dsync_request cb \<Longrightarrow> dsync_request (clear_nowait cb)"
proof -
  have "NOT RWF_NOWAIT AND RWF_DSYNC = RWF_DSYNC"
    by (simp add: RWF_NOWAIT_def RWF_DSYNC_def)
  then have "(x AND NOT RWF_NOWAIT) AND RWF_DSYNC = x AND RWF_DSYNC" for x :: "32 word"
    by (simp add: and.assoc)
  then show "dsync_request cb \<Longrightarrow> dsync_request (clear_nowait cb)"
    by (simp add: dsync_request_def clear_nowait_def)
qed

lemma write_iocb_dsync: "has_RWF_DSYNC cfg \<Longrightarrow> dsync_request (write_iocb cfg h req bufs n offset)"
  by (cases "has_RWF_HIPRI cfg"; cases "has_RWF_NOWAIT cfg \<and> async h")
     (simp_all add: dsync_request_def write_iocb_def zero_iocb_def Let_def RWF_DSYNC_def
       RWF_HIPRI_def RWF_NOWAIT_def)

lemma write_iocb_fields:
  "aio_buf (write_iocb cfg h req bufs n offset) = bufs"
  "aio_nbytes (write_iocb cfg h req bufs n offset) = n"
  "aio_offset (write_iocb cfg h req bufs n offset) = offset"
  "aio_data (write_iocb cfg h req bufs n offset) = req"
  "aio_fildes (write_iocb cfg h req bufs n offset) = fd h"
  by (simp_all add: write_iocb_def zero_iocb_def Let_def)

lemma clear_nowait_fields:
  "aio_buf (clear_nowait cb) = aio_buf cb" "aio_nbytes (clear_nowait cb) = aio_nbytes cb"
  "aio_offset (clear_nowait cb) = aio_offset cb" "aio_data (clear_nowait cb) = aio_data cb"
  "aio_fildes (clear_nowait cb) = aio_fildes cb"
  by (simp_all add: clear_nowait_def)

lemma request_ok_write_iocb:
  "(req, bufs, n, offset) \<in> A \<Longrightarrow> request_ok cfg A (write_iocb cfg h req bufs n offset)"
  by (simp add: request_ok_def iocb_args_def write_iocb_fields write_iocb_dsync)

lemma request_ok_clear: "request_ok cfg A k \<Longrightarrow> request_ok cfg A (clear_nowait k)"
  by (simp add: request_ok_def iocb_args_def clear_nowait_fields clear_nowait_dsync)

lemma request_ok_kept:
  assumes "iocbs_kept w w'" "request_ok cfg A (w_iocb (wreq w x))"
  shows "request_ok cfg A (w_iocb (wreq w' x))"
proof -
  from assms(1) have "w_iocb (wreq w' x) = w_iocb (wreq w x) \<or>
      w_iocb (wreq w' x) = clear_nowait (w_iocb (wreq w x))"
    by (simp add: iocbs_kept_def)
  with assms(2) request_ok_clear show ?thesis by auto
qed

lemma requests_ok_kept:
  assumes o: "requests_ok cfg A w"
    and q: "set (write_queue (f w')) \<subseteq> set (write_queue (f w))"
    and k: "iocbs_kept w w'"
    and s: "submissions (trace w') = submissions (trace w)"
  shows "requests_ok cfg A w'"
  unfolding requests_ok_def
proof (intro conjI ballI)
  fix k' assume "k' \<in> set (submissions (trace w'))"
  with o s show "request_ok cfg A k'" by (simp add: requests_ok_def)
next
  fix r assume "r \<in> set (write_queue (f w'))"
  with q have "r \<in> set (write_queue (f w))" by blast
  with o have "request_ok cfg A (w_iocb (wreq w r))" by (simp add: requests_ok_def)
  with k show "request_ok cfg A (w_iocb (wreq w' r))" by (rule request_ok_kept)
qed

lemma step_created:
  assumes "inv w" "react cfg a w = Some w'" "created w"
  shows "created w'"
proof -
  from step_accounted [OF assms(1,2)] have "trace w' = trace w @ new_events w w'"
    by (simp add: accounted_def)
  with assms(3) show ?thesis by (simp add: created_append)
qed

lemma step_more:
  assumes i: "inv w" and r: "react cfg a w = Some w'"
  shows "created w \<Longrightarrow> same_handle w w'"
    and "set (opens (trace w')) \<subseteq> set (opens (trace w)) \<union> {open_flags cfg}"
    and "requests_ok cfg A w \<Longrightarrow> set (write_calls [a]) \<subseteq> A \<Longrightarrow> requests_ok cfg A w'"
proof -
  have "(created w \<longrightarrow> same_handle w w') \<and>
        set (opens (trace w')) \<subseteq> set (opens (trace w)) \<union> {open_flags cfg} \<and>
        (requests_ok cfg A w \<and> set (write_calls [a]) \<subseteq> A \<longrightarrow> requests_ok cfg A w')"
  proof (cases a)
    case (Call_create env path sz m cb)
    with r obtain rv where nc: "\<not> created w"
      and c: "uvFileCreate cfg env path sz m cb w = Inr (rv, w')"
      by (auto split: if_splits)
    note m = uvFileCreate_more [OF c]
    note e = uvFileCreate_effect [OF c]
    have "requests_ok cfg A w'" if "requests_ok cfg A w"
      by (rule requests_ok_kept [OF that]) (use m e(3) in \<open>simp_all add: iocbs_kept_def\<close>)
    with nc m(3) show ?thesis by auto
  next
    case (Call_write env req bufs n offset cb)
    with r obtain rv where nq: "req \<notin> set (write_queue (f w))"
      and c: "uvFileWrite cfg env req bufs n offset cb w = Inr (rv, w')"
      by (auto split: if_splits)
    note m = uvFileWrite_more [OF c]
    note e = uvFileWrite_effect [OF c]
    have q: "set (write_queue (f w')) \<subseteq> insert req (set (write_queue (f w)))"
      using e(7) set_remove1_subset [of req "write_queue (f w) @ [req]"] by auto
    have "requests_ok cfg A w'" if o: "requests_ok cfg A w" and a: "(req, bufs, n, offset) \<in> A"
      unfolding requests_ok_def
    proof (intro conjI ballI)
      note n = request_ok_write_iocb [OF a, of cfg "f w"]
      fix k assume "k \<in> set (submissions (trace w'))"
      with m(4) o n show "request_ok cfg A k"
        by (auto simp: requests_ok_def)
    next
      note n = request_ok_write_iocb [OF a, of cfg "f w"]
      fix x assume x: "x \<in> set (write_queue (f w'))"
      show "request_ok cfg A (w_iocb (wreq w' x))"
      proof (cases "x = req")
        case True
        with m(3) n request_ok_clear [OF n] show ?thesis by auto
      next
        case False
        with x q have "x \<in> set (write_queue (f w))" by auto
        with o m(2) [OF False] show ?thesis by (simp add: requests_ok_def)
      qed
    qed
    with m(1,7) Call_write show ?thesis by auto
  next
    case (Call_close crv cb)
    with r have c: "uvFileClose crv cb w = Inr w'" by simp
    note m = uvFileClose_more [OF c]
    note e = uvFileClose_effect [OF c]
    have "requests_ok cfg A w'" if "requests_ok cfg A w"
      by (rule requests_ok_kept [OF that]) (use m e(5) in \<open>simp_all add: iocbs_kept_def\<close>)
    with m(1,4) show ?thesis by auto
  next
    case (Work_create env)
    with r have c: "createWorkCb cfg env (work_done Create_work w) = Inr w'"
      by (auto split: if_splits)
    note m = createWorkCb_more [OF c, simplified]
    note e = createWorkCb_effect [OF c, simplified]
    have "requests_ok cfg A w'" if "requests_ok cfg A w"
      by (rule requests_ok_kept [OF that]) (use m e(1,5) in \<open>simp_all add: iocbs_kept_def\<close>)
    with m(2) e(1) show ?thesis by (auto simp: same_handle_def)
  next
    case (After_create prv)
    with r have c: "createAfterWorkCb prv 0 (after_work Create_work w) = Inr w'"
      by (auto split: if_splits)
    note m = createAfterWorkCb_more [OF c]
    note e = createAfterWorkCb_effect [OF c, simplified]
    have "requests_ok cfg A w'" if "requests_ok cfg A w"
      by (rule requests_ok_kept [OF that]) (use m e(4) in \<open>simp_all add: iocbs_kept_def\<close>)
    with m(1,4) show ?thesis by (auto simp: same_handle_def)
  next
    case (Work_write env x)
    with r have p: "Write_work x \<in> set (pool w)"
      and c: "writeWorkCb env x (work_done (Write_work x) w) = Inr w'"
      by (auto split: if_splits)
    note m = writeWorkCb_more [OF c, simplified]
    note e = writeWorkCb_effect [OF c, simplified]
    from inv_mem(3) [OF i p] have xq: "x \<in> set (write_queue (f w))" .
    have "requests_ok cfg A w'" if o: "requests_ok cfg A w"
      unfolding requests_ok_def
    proof (intro conjI ballI)
      fix k assume "k \<in> set (submissions (trace w'))"
      with m(2) o xq show "request_ok cfg A k"
        by (auto simp: requests_ok_def)
    next
      fix y assume "y \<in> set (write_queue (f w'))"
      with o e(1) m(1) [of y] show "request_ok cfg A (w_iocb (wreq w' y))"
        by (simp add: requests_ok_def)
    qed
    with m(3) e(1) show ?thesis by (auto simp: same_handle_def)
  next
    case (After_write x)
    with r have c: "writeAfterWorkCb 0 x (after_work (Write_work x) w) = Inr w'"
      by (auto split: if_splits)
    note m = writeAfterWorkCb_more [OF c, simplified]
    note e = writeAfterWorkCb_effect [OF c, simplified]
    have q: "set (write_queue (f w')) \<subseteq> set (write_queue (f w))"
      using e(5) set_remove1_subset [of x "write_queue (f w)"] by simp
    have "requests_ok cfg A w'" if "requests_ok cfg A w"
      by (rule requests_ok_kept [OF that q]) (use m in \<open>simp_all add: iocbs_kept_def\<close>)
    with m(1,4) show ?thesis by (auto simp: same_handle_def)
  next
    case (Poll_ready rd_rv rd_errno rets)
    let ?env = "\<lparr>read_rv = rd_rv, read_errno = rd_errno, poll_getevents_rets = rets,
                   uv_queue_work_rv = (\<lambda>r. 0)\<rparr>"
    from r Poll_ready have k: "kernel_ok (poll_getevents_rets ?env) w"
      and p: "writePollCb cfg ?env 0 UV_READABLE w = Inr w'"
      by (auto split: if_splits)
    have q0: "uv_queue_work_rv ?env = (\<lambda>r. 0)" by simp
    note m = writePollCb_more [OF p q0 k]
    have "requests_ok cfg A w'" if "requests_ok cfg A w"
      by (rule requests_ok_kept [OF that m(5) m(2) m(3)])
    with m(1,4) show ?thesis by auto
  next
    case (Close_poller crv drv)
    let ?w0 = "w\<lparr>f := (f w)\<lparr>event_poller := Poll_closed\<rparr>\<rparr>"
    from r Close_poller have c: "pollCloseCb crv drv ?w0 = Inr w'"
      by (auto split: if_splits)
    note m = pollCloseCb_more [OF c]
    note e = pollCloseCb_effect [OF c]
    have "requests_ok cfg A w'" if "requests_ok cfg A w"
      by (rule requests_ok_kept [OF that]) (use m e(3,7) in \<open>simp_all add: iocbs_kept_def\<close>)
    with m(1,4) show ?thesis by (auto simp: same_handle_def)
  qed
  then show "created w \<Longrightarrow> same_handle w w'"
    and "set (opens (trace w')) \<subseteq> set (opens (trace w)) \<union> {open_flags cfg}"
    and "requests_ok cfg A w \<Longrightarrow> set (write_calls [a]) \<subseteq> A \<Longrightarrow> requests_ok cfg A w'"
    by simp_all
qed

lemma write_calls_Cons: "write_calls (a # as) = write_calls [a] @ write_calls as"
  by (cases a) simp_all

lemma run_more:
  assumes "inv w" "run cfg as w = Some w'"
  shows "created w \<Longrightarrow> same_handle w w'"
    and "set (opens (trace w')) \<subseteq> set (opens (trace w)) \<union> {open_flags cfg}"
    and "requests_ok cfg A w \<Longrightarrow> set (write_calls as) \<subseteq> A \<Longrightarrow> requests_ok cfg A w'"
proof -
  from assms
  have "(created w \<longrightarrow> same_handle w w') \<and>
        set (opens (trace w')) \<subseteq> set (opens (trace w)) \<union> {open_flags cfg} \<and>
        (requests_ok cfg A w \<and> set (write_calls as) \<subseteq> A \<longrightarrow> requests_ok cfg A w')"
  proof (induction as arbitrary: w)
    case Nil
    then show ?case by auto
  next
    case (Cons a as)
    then obtain w1 where s: "react cfg a w = Some w1" and r: "run cfg as w1 = Some w'"
      by (auto split: option.splits)
    note i1 = inv_react [OF Cons.prems(1) s]
    note m = step_more [OF Cons.prems(1) s]
    note ih = Cons.IH [OF i1 r]
    have c: "created w1" if "created w"
      using step_created [OF Cons.prems(1) s that] .
    have "same_handle w w'" if "created w"
      using same_handle_trans [OF m(1) [OF that]] ih c [OF that] by blast
    moreover have "set (opens (trace w')) \<subseteq> set (opens (trace w)) \<union> {open_flags cfg}"
      using m(2) ih by blast
    moreover have "requests_ok cfg A w'"
      if "requests_ok cfg A w" "set (write_calls (a # as)) \<subseteq> A"
    proof -
      from that(2) have "set (write_calls [a]) \<subseteq> A" "set (write_calls as) \<subseteq> A"
        unfolding write_calls_Cons [of a as] by simp_all
      with m(3) [OF that(1)] ih show ?thesis by blast
    qed
    ultimately show ?case by blast
  qed
  then show "created w \<Longrightarrow> same_handle w w'"
    and "set (opens (trace w')) \<subseteq> set (opens (trace w)) \<union> {open_flags cfg}"
    and "requests_ok cfg A w \<Longrightarrow> set (write_calls as) \<subseteq> A \<Longrightarrow> requests_ok cfg A w'"
    by simp_all
qed

lemma boot_clean:
  assumes "boot env d a w0 = Some w"
  shows "trace w = []" "write_queue (f w) = []" "direct (f w) = d" "async (f w) = a"
  using assms
  by (auto simp: boot_def uvFileInit_def Let_def split: sum.splits if_splits prod.splits)

subsection \<open>Facts for the claims\<close>

lemmas eval_simps = boot_def uvFileInit_def uvFileCreate_def uvFileWrite_def uvFileClose_def
  createWorkCb_def createAfterWorkCb_def writeWorkCb_def writeAfterWorkCb_def writePollCb_def
  pollCloseCb_def maybeClosed_def write_in_threadpool_def write_err_def create_err_def
  create_err_after_open_def write_iocb_def open_flags_def zero_iocb_def zero_event_def
  Let_def emit_def set_status_def fall_back_def queue_work_def create_status_def
  writeFinish_def write_finished_def work_done_def after_work_def store_events_def kernel_ok_def created_def
  world_of_def and_then_def clear_nowait_def uv_translate_sys_error_def new_events_def
  writePollCb_loop.simps
  CREATING_def READY_def ERRORED_def CLOSED_def EINTR_def EAGAIN_def EOPNOTSUPP_def EIO_def
  UV_ECANCELED_def UV_ENOMEM_def UV_READABLE_def IOCB_CMD_PWRITEV_def IOCB_FLAG_RESFD_def
  RWF_HIPRI_def RWF_DSYNC_def RWF_NOWAIT_def O_WRONLY_def O_CREAT_def O_EXCL_def O_DSYNC_def
  demo_cfg_def blank_world_def init_ok_def open_ok_def submit_ok_def create_ok_def
  work_eio_def work_ok_def create_segment_def two_writes_def ready_world_def creating_world_def
  no_request_def callbacks_def after_def in_flight_def handle_state_def
  would_block_def events_fetched_def write_asserts_def iocb_args_def dsync_request_def
  blocking_iocb_def submit_again_def fall_back_run_def unaligned_write_def submitted_def
  aligned_to_def switched_direct_def woken_def

lemma reach_inv:
  assumes "boot ienv d a w0 = Some w1" "run cfg as w1 = Some w"
  shows "inv w"
  using inv_run [OF inv_boot [OF assms(1)] assms(2)] .

lemma boot_started: "boot init_ok True True blank_world = Some started_world"
  by (simp add: eval_simps started_world_def)




lemma uvFileWrite_paths:
  assumes "uvFileWrite cfg env req bufs n offset cb w = Inr (rv, w')"
  obtains (pool) "\<not> (has_RWF_NOWAIT cfg \<and> async (f w))"
      "w_iocb (wreq w' req) = write_iocb cfg (f w) req bufs n offset"
      "new_events w w' = [Uv_queue_work (Write_work req)]"
    | (kernel) "has_RWF_NOWAIT cfg" "async (f w)" "submit_rv env = 1" "rv = 0"
      "w_iocb (wreq w' req) = write_iocb cfg (f w) req bufs n offset"
      "new_events w w' = [Sys_io_submit (ctx (f w)) (write_iocb cfg (f w) req bufs n offset)]"
      "kaio w' = kaio w @ [req]" "pool w' = pool w"
    | (again) "has_RWF_NOWAIT cfg" "async (f w)" "submit_rv env = - 1" "submit_errno env = EAGAIN"
      "w_iocb (wreq w' req) = clear_nowait (write_iocb cfg (f w) req bufs n offset)"
      "new_events w w' = [Sys_io_submit (ctx (f w)) (write_iocb cfg (f w) req bufs n offset),
                          Uv_queue_work (Write_work req)]"
      "kaio w' = kaio w"
      "rv = 0 \<and> pool w' = pool w @ [Write_work req] \<or> rv \<noteq> 0 \<and> pool w' = pool w"
      "rv = write_queue_work_rv env"
    | (err) "has_RWF_NOWAIT cfg" "async (f w)" "submit_rv env = - 1" "submit_errno env \<noteq> EAGAIN"
      "rv \<noteq> 0" "pool w' = pool w" "kaio w' = kaio w"
      "new_events w w' = [Sys_io_submit (ctx (f w)) (write_iocb cfg (f w) req bufs n offset)]"
proof -
  note a = uvFileWrite_asserts [OF assms]
  let ?w1 = "w\<lparr>wreq := (wreq w)(req := (wreq w req)\<lparr>w_cb := cb,
                         w_iocb := write_iocb cfg (f w) req bufs n offset\<rparr>),
                   f := (f w)\<lparr>write_queue := write_queue (f w) @ [req]\<rparr>\<rparr>"
  let ?w2 = "emit [Sys_io_submit (ctx (f w)) (w_iocb (wreq ?w1 req))] ?w1"
  from assms a consider
      (p) "\<not> (has_RWF_NOWAIT cfg \<and> async (f w))" "write_in_threadpool env req ?w1 = Inr (rv, w')"
    | (k) "has_RWF_NOWAIT cfg" "async (f w)" "submit_rv env = 1" "rv = 0"
          "w' = ?w2\<lparr>kaio := kaio ?w2 @ [req]\<rparr>"
    | (g) "has_RWF_NOWAIT cfg" "async (f w)" "submit_rv env = - 1" "submit_errno env = EAGAIN"
          "write_in_threadpool env req (fall_back req ?w2) = Inr (rv, w')"
    | (e) "has_RWF_NOWAIT cfg" "async (f w)" "submit_rv env = - 1" "submit_errno env \<noteq> EAGAIN"
          "write_err req (uv_translate_sys_error (submit_errno env)) ?w2 = Inr (rv, w')"
    by (simp add: uvFileWrite_def Let_def split: if_splits)
  then show thesis
  proof cases
    case p
    note t = write_in_threadpool_effect [OF p(2)]
    show ?thesis
      by (rule pool) (use p(1) t in \<open>simp_all add: new_events_def\<close>)
  next
    case k
    show ?thesis
      by (rule kernel) (use k in \<open>simp_all add: new_events_def\<close>)
  next
    case g
    note t = write_in_threadpool_effect [OF g(5)]
    have "rv = write_queue_work_rv env"
      using g(5) by (auto simp: write_in_threadpool_def Let_def write_err_def split: if_splits)
    then show ?thesis
      by (intro again) (use g(1-4) t in \<open>auto simp: new_events_def fall_back_def\<close>)
  next
    case e
    note t = write_err_effect [OF e(5)]
    show ?thesis
      by (rule err) (use e(1-4) t in \<open>simp_all add: new_events_def\<close>)
  qed
qed

lemma open_flags_dsync: "\<not> has_RWF_DSYNC cfg \<Longrightarrow> dsync_open cfg"
  by (simp add: dsync_open_def open_flags_def Let_def O_WRONLY_def O_CREAT_def O_EXCL_def
      O_DSYNC_def)

subsection \<open>Closing\<close>



text \<open>
  C4. What \<open>uvFileClose\<close> leaves of a write whose event was dropped. Requests 1 and 2 are
  with the kernel; the kernel reports \<open>- EAGAIN\<close> for 1 and 4096 bytes written for 2 in
  one wake-up; \<open>writePollCb\<close> hands request 1 to the thread pool and returns from inside
  its loop; the worker writes request 1 and its callback is invoked; then the handle is
  closed. Request 2 is still in the write queue and neither the kernel nor the thread
  pool holds anything for the handle: the callback of request 2 has not been invoked,
  the handle is closing and its poller is not being closed. A further wake-up of the
  poller finds nothing to read and changes none of this, and \<open>pollCloseCb\<close> cannot run.
\<close>

theorem write_left_waiting_after_close:
  "in_flight (after demo_cfg left_waiting (boot init_ok True True blank_world))
     = Some ([2], [], [], []) \<and>
   callbacks (after demo_cfg left_waiting (boot init_ok True True blank_world))
     = Some ([1], [4096]) \<and>
   handle_state (after demo_cfg left_waiting (boot init_ok True True blank_world))
     = Some (READY, True, Poll_started) \<and>
   in_flight (after demo_cfg (left_waiting @ [Poll_ready (- 1) EAGAIN []])
      (boot init_ok True True blank_world)) = Some ([2], [], [], []) \<and>
   callbacks (after demo_cfg (left_waiting @ [Poll_ready (- 1) EAGAIN []])
      (boot init_ok True True blank_world)) = Some ([1], [4096]) \<and>
   after demo_cfg (left_waiting @ [Close_poller 0 0]) (boot init_ok True True blank_world) = None"
  by (simp add: eval_simps left_waiting_def)

text \<open>
  From such a world nothing finishes the request, whatever the run that follows: with
  nothing held by the kernel or by the thread pool for a closing handle, no write
  callback and no close callback is invoked and the write queue stays as it is.
\<close>

lemma idle_step:
  assumes i: "inv w" and c: "created w" "closing (f w)" and e: "kaio w = []" "pool w = []"
    "finished w = []" and q: "write_queue (f w) \<noteq> []" and r: "react cfg a w = Some w'"
  shows "f w' = f w" "kaio w' = []" "pool w' = []" "finished w' = []"
    "\<exists>es. trace w' = trace w @ es \<and> quiet es"
proof -
  have "f w' = f w \<and> kaio w' = [] \<and> pool w' = [] \<and> finished w' = [] \<and>
        (\<exists>es. trace w' = trace w @ es \<and> quiet es)"
  proof (cases a)
    case (Call_create env path sz m cb)
    with r c(1) show ?thesis by simp
  next
    case (Call_write env req bufs n offset cb)
    with r c(2) show ?thesis by (simp add: uvFileWrite_def world_of_def split: if_splits)
  next
    case (Call_close crv cb)
    with r c(2) show ?thesis by (simp add: uvFileClose_def)
  next
    case (Work_create env)
    with r e show ?thesis by simp
  next
    case (After_create prv)
    with r e show ?thesis by simp
  next
    case (Work_write env x)
    with r e show ?thesis by simp
  next
    case (After_write x)
    with r e show ?thesis by simp
  next
    case (Poll_ready rd_rv rd_errno rets)
    let ?env = "\<lparr>read_rv = rd_rv, read_errno = rd_errno, poll_getevents_rets = rets,
                   uv_queue_work_rv = (\<lambda>r. 0)\<rparr>"
    from r Poll_ready have k: "kernel_ok (poll_getevents_rets ?env) w"
      and p: "writePollCb cfg ?env 0 UV_READABLE w = Inr w'"
      by (auto split: if_splits)
    have q0: "uv_queue_work_rv ?env = (\<lambda>r. 0)" by simp
    from p q0 k show ?thesis
    proof (cases rule: writePollCb_cases)
      case again
      with e show ?thesis by (simp add: quiet_def)
    next
      case (events evs b w3)
      from k events(1) e(1) have "set (map ev_data evs) \<subseteq> {}"
        by (simp add: kernel_ok_def)
      with events(2) show ?thesis by simp
    qed
  next
    case (Close_poller crv drv)
    with r have "event_poller (f w) = Poll_closing" by (simp split: if_splits)
    with invD(8) [OF i] q show ?thesis by simp
  qed
  then show "f w' = f w" "kaio w' = []" "pool w' = []" "finished w' = []"
    "\<exists>es. trace w' = trace w @ es \<and> quiet es"
    by simp_all
qed

lemma nothing_left_to_finish:
  assumes "inv w" "created w" "closing (f w)" "kaio w = []" "pool w = []" "finished w = []"
    "write_queue (f w) \<noteq> []" "run cfg as w = Some w'"
  shows "write_queue (f w') = write_queue (f w) \<and> cb_ids (new_events w w') = [] \<and>
         Close_cb \<notin> set (new_events w w')"
  using assms
proof (induction as arbitrary: w)
  case Nil
  then show ?case by (simp add: new_events_def)
next
  case (Cons a as)
  then obtain w1 where s: "react cfg a w = Some w1" and r: "run cfg as w1 = Some w'"
    by (auto split: option.splits)
  note k = idle_step [OF Cons.prems(1-7) s]
  from k(5) obtain es where es: "trace w1 = trace w @ es" "quiet es" by blast
  have "write_queue (f w') = write_queue (f w1) \<and> cb_ids (new_events w1 w') = [] \<and>
         Close_cb \<notin> set (new_events w1 w')"
    by (rule Cons.IH [OF inv_react [OF Cons.prems(1) s]
          step_created [OF Cons.prems(1) s Cons.prems(2)] _ k(2,3,4) _ r])
       (use k(1) Cons.prems(3,7) in simp_all)
  moreover from run_accounted [OF inv_react [OF Cons.prems(1) s] r]
  have t: "trace w' = trace w1 @ new_events w1 w'"
    by (simp add: accounted_def)
  have "new_events w w' = es @ new_events w1 w'"
    using new_events_trans [OF es(1) t] new_events_append [OF es(1)] by simp
  ultimately show ?case
    using k(1) es(2) by (simp add: quiet_def)
qed

text \<open>
  What does hold once the handle is closing, whatever the run that follows: every write
  callback invoked in it has status \<open>UV_ECANCELED\<close>, no request has two callbacks, the
  callbacks are those of requests that were queued when the run began, and once the
  poller is being closed every request that was queued has had its callback.
\<close>

lemma closing_run_cancels:
  assumes "boot ienv d a w0 = Some w1" and "run cfg as w1 = Some w"
    and "closing (f w)" and "run cfg bs w = Some w'"
  shows "(\<forall>s \<in> set (cb_statuses (new_events w w')). s = UV_ECANCELED) \<and>
         distinct (cb_ids (new_events w w')) \<and>
         set (cb_ids (new_events w w')) \<subseteq> set (write_queue (f w)) \<and>
         (uv_is_closing (event_poller (f w')) \<longrightarrow>
            set (cb_ids (new_events w w')) = set (write_queue (f w)))"
proof -
  note i = reach_inv [OF assms(1,2)]
  note i' = inv_run [OF i assms(4)]
  from run_accounted [OF i assms(4)] assms(3)
  have a: "\<forall>s \<in> set (cb_statuses (new_events w w')). s = UV_ECANCELED"
    "distinct (cb_ids (new_events w w'))"
    "set (cb_ids (new_events w w')) \<union> set (write_queue (f w')) = set (write_queue (f w))"
    by (simp_all add: accounted_def)
  from a(3) have "set (cb_ids (new_events w w')) \<subseteq> set (write_queue (f w))"
    by blast
  moreover have "set (cb_ids (new_events w w')) = set (write_queue (f w))"
    if "uv_is_closing (event_poller (f w'))"
    using inv_closing_idle(2) [OF i' that] a(3) by simp
  ultimately show ?thesis
    using a(1,2) by blast
qed

subsection \<open>The order of the write callbacks\<close>

text \<open>
  C7, as amended. On a handle with room for one write (\<open>n_events = 1\<close>), when a write
  request has been accepted and later a second call of \<open>uvFileWrite\<close> returns, the
  callback of the first request was invoked in between: callbacks are in the order of
  submission because a second write is not accepted before the first has finished.
\<close>

theorem one_write_at_a_time_in_order:
  assumes "boot ienv d a w0 = Some wa" and "run cfg as wa = Some w1"
    and "r1 \<notin> set (write_queue (f w1))"
    and "uvFileWrite cfg e1 r1 b1 n1 o1 c1 w1 = Inr (0, w2)"
    and "run cfg bs w2 = Some w3"
    and "n_events (f w3) = 1"
    and "uvFileWrite cfg e2 r2 b2 n2 o2 c2 w3 = Inr (rv, w4)"
  shows "r1 \<in> set (cb_ids (new_events w2 w3))"
proof -
  note i = reach_inv [OF assms(1,2)]
  have "react cfg (Call_write e1 r1 b1 n1 o1 c1) w1 = Some w2"
    using assms(3,4) by simp
  note i2 = inv_react [OF i this]
  from uvFileWrite_effect(7) [OF assms(4)] have "r1 \<in> set (write_queue (f w2))"
    by auto
  moreover from uvFileWrite_asserts(3) [OF assms(7) assms(6)] have "write_queue (f w3) = []" .
  moreover from run_accounted [OF i2 assms(5)]
  have "set (write_queue (f w2)) - set (cb_ids (new_events w2 w3)) \<subseteq> set (write_queue (f w3))"
    by (simp add: accounted_def)
  ultimately show ?thesis by auto
qed

theorem one_write_at_a_time_in_order_witness:
  "\<exists>w1 w2 w3 w4. boot init_ok True False blank_world = Some (started_world\<lparr>f := (f started_world)\<lparr>async := False\<rparr>\<rparr>) \<and>
     run demo_cfg (create_segment 1) (started_world\<lparr>f := (f started_world)\<lparr>async := False\<rparr>\<rparr>) = Some w1 \<and>
     uvFileWrite demo_cfg submit_ok 1 64 1 0 7 w1 = Inr (0, w2) \<and>
     run demo_cfg [Work_write work_ok 1, After_write 1] w2 = Some w3 \<and>
     n_events (f w3) = 1 \<and>
     uvFileWrite demo_cfg submit_ok 2 65 1 4096 7 w3 = Inr (0, w4) \<and>
     cb_ids (new_events w2 w3) = [1]"
proof -
  let ?s = "started_world\<lparr>f := (f started_world)\<lparr>async := False\<rparr>\<rparr>"
  have b: "boot init_ok True False blank_world = Some ?s"
    by (simp add: eval_simps started_world_def)
  obtain w1 where r1: "run demo_cfg (create_segment 1) ?s = Some w1"
    and w1: "w1 = the (run demo_cfg (create_segment 1) ?s)"
    by (simp add: eval_simps started_world_def)
  have q1: "1 \<notin> set (write_queue (f w1))"
    unfolding w1 by (simp add: eval_simps started_world_def)
  obtain w2 where u1: "uvFileWrite demo_cfg submit_ok 1 64 1 0 7 w1 = Inr (0, w2)"
    and w2: "w2 = snd (projr (uvFileWrite demo_cfg submit_ok 1 64 1 0 7 w1))"
    unfolding w1 by (simp add: eval_simps started_world_def)
  obtain w3 where r3: "run demo_cfg [Work_write work_ok 1, After_write 1] w2 = Some w3"
    and w3: "w3 = the (run demo_cfg [Work_write work_ok 1, After_write 1] w2)"
    unfolding w2 w1 by (simp add: eval_simps started_world_def)
  have n3: "n_events (f w3) = 1" and cb: "cb_ids (new_events w2 w3) = [1]"
    unfolding w3 w2 w1 by (simp_all add: eval_simps started_world_def)
  obtain w4 where u2: "uvFileWrite demo_cfg submit_ok 2 65 1 4096 7 w3 = Inr (0, w4)"
    unfolding w3 w2 w1 by (simp add: eval_simps started_world_def)
  from one_write_at_a_time_in_order [OF b r1 q1 u1 r3 n3 u2] b r1 u1 r3 n3 u2 cb
  show ?thesis by auto
qed

text \<open>
  C7, the claim as stated fails on a handle with room for two writes: requests 1 and 2
  are submitted in this order, the kernel reports 2 before 1, and the callbacks are
  invoked in the order 2, 1.
\<close>

theorem callbacks_out_of_submission_order:
  "in_flight (after demo_cfg two_writes (boot init_ok True True blank_world))
     = Some ([1, 2], [1, 2], [], []) \<and>
   callbacks (after demo_cfg
      (two_writes @
       [Poll_ready 8 0 [Ge_events [\<lparr>ev_data = 2, ev_res = 4096\<rparr>, \<lparr>ev_data = 1, ev_res = 4096\<rparr>]]])
      (boot init_ok True True blank_world)) = Some ([2, 1], [4096, 4096])"
  by (simp add: eval_simps)

subsection \<open>Errors of writes\<close>




subsection \<open>The fall back to the thread pool\<close>

text \<open>
  C3, as amended. With \<open>RWF_NOWAIT\<close> defined, on a handle that submits to the kernel
  itself: when the assertions of \<open>uvFileWrite\<close> hold, \<open>io_submit\<close> fails with EAGAIN and
  \<open>uv_queue_work\<close> returns 0, the call returns 0 with the request in the write queue and
  handed to the thread pool, not held by the kernel, and its \<open>iocb\<close> without the eventfd
  flag, with \<open>aio_resfd\<close> 0 and without \<open>RWF_NOWAIT\<close>. When \<open>writePollCb\<close> has fetched
  events, the handle is not closing and an event has the result \<open>- EAGAIN\<close> while none of
  the events before it has, the callbacks of the events before it are invoked and the
  request of that event is handed to the thread pool in the same way and is not taken
  from the write queue. When the handle is closing, no request is handed to the thread
  pool: the callback of every fetched event is invoked with \<open>UV_ECANCELED\<close>. And a worker
  whose system calls succeed submits the \<open>iocb\<close> of the request as it is, after which the
  after-work callback invokes the callback of the request, when it is not NULL, once,
  with the result of the write (\<open>UV_ECANCELED\<close> when the handle is closing).
\<close>

theorem would_block_falls_back:
  "(write_asserts w req bufs n \<and> has_RWF_NOWAIT cfg \<and> async (f w) \<and> submit_rv env = - 1 \<and>
    submit_errno env = EAGAIN \<and> write_queue_work_rv env = 0 \<longrightarrow>
      (\<exists>w'. uvFileWrite cfg env req bufs n offset cb w = Inr (0, w') \<and>
            new_events w w' =
              [Sys_io_submit (ctx (f w)) (write_iocb cfg (f w) req bufs n offset),
               Uv_queue_work (Write_work req)] \<and>
            pool w' = pool w @ [Write_work req] \<and> kaio w' = kaio w \<and>
            write_queue (f w') = write_queue (f w) @ [req] \<and> w_cb (wreq w' req) = cb \<and>
            w_iocb (wreq w' req) = clear_nowait (write_iocb cfg (f w) req bufs n offset) \<and>
            blocking_iocb (w_iocb (wreq w' req)))) \<and>
   (events_fetched penv 0 m u (pre @ ev # post) \<and> uv_queue_work_rv penv = (\<lambda>r. 0) \<and>
    \<not> closing (f u) \<and> (\<forall>e \<in> set pre. w_cb (wreq u (ev_data e)) \<noteq> 0 \<and> \<not> would_block cfg e) \<and>
    would_block cfg ev \<longrightarrow>
      (\<exists>u'. writePollCb cfg penv 0 m u = Inr u' \<and>
            pool u' = pool u @ [Write_work (ev_data ev)] \<and>
            last (new_events u u') = Uv_queue_work (Write_work (ev_data ev)) \<and>
            cb_ids (new_events u u') = map ev_data pre \<and>
            (ev_data ev \<in> set (write_queue (f u)) \<and> ev_data ev \<notin> set (map ev_data pre) \<longrightarrow>
               ev_data ev \<in> set (write_queue (f u'))) \<and>
            w_cb (wreq u' (ev_data ev)) = w_cb (wreq u (ev_data ev)) \<and>
            w_iocb (wreq u' (ev_data ev)) = clear_nowait (w_iocb (wreq u (ev_data ev))) \<and>
            blocking_iocb (w_iocb (wreq u' (ev_data ev))))) \<and>
   (events_fetched cenv 0 m c evs \<and> uv_queue_work_rv cenv = (\<lambda>r. 0) \<and> closing (f c) \<and>
    (\<forall>e \<in> set evs. w_cb (wreq c (ev_data e)) \<noteq> 0) \<longrightarrow>
      (\<exists>c'. writePollCb cfg cenv 0 m c = Inr c' \<and> pool c' = pool c \<and>
            cb_ids (new_events c c') = map ev_data evs \<and>
            cb_statuses (new_events c c') = map (\<lambda>e. UV_ECANCELED) evs)) \<and>
   (state (f v) = READY \<and> w_cb (wreq v r) \<noteq> 0 \<and> io_submit_rv wenv \<noteq> - 1 \<and>
    (1 < n_events (f v) \<longrightarrow> io_setup_rv wenv \<noteq> - 1) \<and>
    getevents_retry (io_getevents_rets wenv) = Some (Ge_events [wev]) \<longrightarrow>
      (\<exists>va vb. writeWorkCb wenv r v = Inr va \<and>
           submissions (new_events v va) = [w_iocb (wreq v r)] \<and>
           writeAfterWorkCb 0 r va = Inr vb \<and> cb_ids (new_events v vb) = [r] \<and>
           cb_statuses (new_events v vb) =
             [if closing (f v) then UV_ECANCELED else ev_res wev]))"
proof -
  have c1: "\<exists>w'. uvFileWrite cfg env req bufs n offset cb w = Inr (0, w') \<and>
            new_events w w' =
              [Sys_io_submit (ctx (f w)) (write_iocb cfg (f w) req bufs n offset),
               Uv_queue_work (Write_work req)] \<and>
            pool w' = pool w @ [Write_work req] \<and> kaio w' = kaio w \<and>
            write_queue (f w') = write_queue (f w) @ [req] \<and> w_cb (wreq w' req) = cb \<and>
            w_iocb (wreq w' req) = clear_nowait (write_iocb cfg (f w) req bufs n offset) \<and>
            blocking_iocb (w_iocb (wreq w' req))"
    if h: "write_asserts w req bufs n" "has_RWF_NOWAIT cfg" "async (f w)" "submit_rv env = - 1"
      "submit_errno env = EAGAIN" "write_queue_work_rv env = 0"
  proof -
    have "submit_rv env = 1 \<or>
        submit_rv env = - 1 \<and> submit_errno env \<noteq> EOPNOTSUPP \<and> submit_errno env \<noteq> 0"
      using h(4,5) by (simp add: EAGAIN_def EOPNOTSUPP_def)
    from uvFileWrite_accepts [OF h(1) _ this, of cfg offset cb] h(2) obtain rv w' where
      r: "uvFileWrite cfg env req bufs n offset cb w = Inr (rv, w')"
      by blast
    note e = uvFileWrite_effect(7) [OF r]
    note m = uvFileWrite_more(6) [OF r]
    from r have "rv = 0 \<and> new_events w w' =
              [Sys_io_submit (ctx (f w)) (write_iocb cfg (f w) req bufs n offset),
               Uv_queue_work (Write_work req)] \<and>
            pool w' = pool w @ [Write_work req] \<and> kaio w' = kaio w \<and>
            w_iocb (wreq w' req) = clear_nowait (write_iocb cfg (f w) req bufs n offset)"
    proof (cases rule: uvFileWrite_paths)
      case again
      with h(6) show ?thesis by simp
    qed (use h in simp_all)
    with r e m show ?thesis
      by (intro exI [of _ w']) (simp add: clear_nowait_blocking)
  qed
  have c2: "\<exists>u'. writePollCb cfg penv 0 m u = Inr u' \<and>
            pool u' = pool u @ [Write_work (ev_data ev)] \<and>
            last (new_events u u') = Uv_queue_work (Write_work (ev_data ev)) \<and>
            cb_ids (new_events u u') = map ev_data pre \<and>
            (ev_data ev \<in> set (write_queue (f u)) \<and> ev_data ev \<notin> set (map ev_data pre) \<longrightarrow>
               ev_data ev \<in> set (write_queue (f u'))) \<and>
            w_cb (wreq u' (ev_data ev)) = w_cb (wreq u (ev_data ev)) \<and>
            w_iocb (wreq u' (ev_data ev)) = clear_nowait (w_iocb (wreq u (ev_data ev))) \<and>
            blocking_iocb (w_iocb (wreq u' (ev_data ev)))"
    if h: "events_fetched penv 0 m u (pre @ ev # post)" "uv_queue_work_rv penv = (\<lambda>r. 0)"
      "\<not> closing (f u)" "\<forall>e \<in> set pre. w_cb (wreq u (ev_data e)) \<noteq> 0 \<and> \<not> would_block cfg e"
      "would_block cfg ev"
  proof -
    from writePollCb_requeues [OF h(1,2,4,5,3)] obtain u' where
      r: "writePollCb cfg penv 0 m u = Inr u'"
        "pool u' = pool u @ [Write_work (ev_data ev)]"
        "w_iocb (wreq u' (ev_data ev)) = clear_nowait (w_iocb (wreq u (ev_data ev)))"
        "w_cb (wreq u' (ev_data ev)) = w_cb (wreq u (ev_data ev))"
        "cb_ids (new_events u u') = map ev_data pre"
        "last (new_events u u') = Uv_queue_work (Write_work (ev_data ev))"
        "write_queue (f u') = fold remove1 (map ev_data pre) (write_queue (f u))"
      by blast
    have "ev_data ev \<in> set (write_queue (f u'))"
      if "ev_data ev \<in> set (write_queue (f u))" "ev_data ev \<notin> set (map ev_data pre)"
      unfolding r(7) using that by (rule fold_remove1_keeps)
    with r show ?thesis
      by (intro exI [of _ u']) (simp add: clear_nowait_blocking)
  qed
  have c3: "\<exists>c'. writePollCb cfg cenv 0 m c = Inr c' \<and> pool c' = pool c \<and>
            cb_ids (new_events c c') = map ev_data evs \<and>
            cb_statuses (new_events c c') = map (\<lambda>e. UV_ECANCELED) evs"
    if h: "events_fetched cenv 0 m c evs" "uv_queue_work_rv cenv = (\<lambda>r. 0)" "closing (f c)"
      "\<forall>e \<in> set evs. w_cb (wreq c (ev_data e)) \<noteq> 0"
  proof -
    from h(3) have "closing (f c) \<or> (\<forall>ev \<in> set evs. \<not> would_block cfg ev)" by simp
    from writePollCb_finishes_all [OF h(1,2,4) this] h(3) show ?thesis
      by auto
  qed
  note c4 = worker_completes_write [of v r wenv wev]
  from c1 c2 c3 c4 show ?thesis by blast
qed

theorem would_block_falls_back_witness:
  "\<exists>w w' u u' c c' va vb.
     after demo_cfg (create_segment 1) (boot init_ok True True blank_world) = Some w \<and>
     write_asserts w 1 64 1 \<and>
     uvFileWrite demo_cfg submit_again 1 64 1 0 7 w = Inr (0, w') \<and>
     pool w' = [Write_work 1] \<and> kaio w' = [] \<and> write_queue (f w') = [1] \<and>
     blocking_iocb (w_iocb (wreq w' 1)) \<and>
     after demo_cfg two_writes (boot init_ok True True blank_world) = Some u \<and>
     events_fetched
       (woken [Ge_events [\<lparr>ev_data = 2, ev_res = 4096\<rparr>, \<lparr>ev_data = 1, ev_res = - EAGAIN\<rparr>]])
       0 UV_READABLE u [\<lparr>ev_data = 2, ev_res = 4096\<rparr>, \<lparr>ev_data = 1, ev_res = - EAGAIN\<rparr>] \<and>
     writePollCb demo_cfg
       (woken [Ge_events [\<lparr>ev_data = 2, ev_res = 4096\<rparr>, \<lparr>ev_data = 1, ev_res = - EAGAIN\<rparr>]])
       0 UV_READABLE u = Inr u' \<and>
     pool u' = [Write_work 1] \<and> cb_ids (new_events u u') = [2] \<and>
     1 \<in> set (write_queue (f u')) \<and> blocking_iocb (w_iocb (wreq u' 1)) \<and>
     after demo_cfg (two_writes @ [Call_close 0 9]) (boot init_ok True True blank_world) = Some c \<and>
     closing (f c) \<and>
     writePollCb demo_cfg
       (woken [Ge_events [\<lparr>ev_data = 1, ev_res = - EAGAIN\<rparr>, \<lparr>ev_data = 2, ev_res = 4096\<rparr>]])
       0 UV_READABLE c = Inr c' \<and>
     pool c' = [] \<and> cb_ids (new_events c c') = [1, 2] \<and>
     cb_statuses (new_events c c') = [UV_ECANCELED, UV_ECANCELED] \<and>
     writeWorkCb work_ok 1 (work_done (Write_work 1) w') = Inr va \<and>
     submissions (new_events (work_done (Write_work 1) w') va) = [w_iocb (wreq w' 1)] \<and>
     writeAfterWorkCb 0 1 va = Inr vb \<and>
     cb_ids (new_events (work_done (Write_work 1) w') vb) = [1] \<and>
     cb_statuses (new_events (work_done (Write_work 1) w') vb) = [4096]"
proof -
  let ?a = "\<lparr>ev_data = 2, ev_res = 4096\<rparr>"
  let ?b = "\<lparr>ev_data = 1, ev_res = - EAGAIN\<rparr>"
  let ?penv = "woken [Ge_events [?a, ?b]]"
  let ?cenv = "woken [Ge_events [?b, ?a]]"
  obtain w where w1: "after demo_cfg (create_segment 1) (boot init_ok True True blank_world) = Some w"
    and w: "w = the (after demo_cfg (create_segment 1) (boot init_ok True True blank_world))"
    by (simp add: eval_simps)
  have h1: "write_asserts w 1 64 1" "has_RWF_NOWAIT demo_cfg" "async (f w)"
    "submit_rv submit_again = - 1" "submit_errno submit_again = EAGAIN"
    "write_queue_work_rv submit_again = 0" "pool w = []" "kaio w = []" "write_queue (f w) = []"
    unfolding w by (simp_all add: eval_simps)
  obtain w' where u1: "uvFileWrite demo_cfg submit_again 1 64 1 0 7 w = Inr (0, w')"
    and w': "w' = snd (projr (uvFileWrite demo_cfg submit_again 1 64 1 0 7 w))"
    unfolding w by (simp add: eval_simps)
  let ?v = "work_done (Write_work 1) w'"
  have h4: "state (f ?v) = READY" "w_cb (wreq ?v 1) \<noteq> 0" "io_submit_rv work_ok \<noteq> - 1"
    "1 < n_events (f ?v) \<longrightarrow> io_setup_rv work_ok \<noteq> - 1"
    "getevents_retry (io_getevents_rets work_ok) = Some (Ge_events [\<lparr>ev_data = 1, ev_res = 4096\<rparr>])"
    "\<not> closing (f ?v)" "w_iocb (wreq ?v 1) = w_iocb (wreq w' 1)"
    unfolding w' w by (simp_all add: eval_simps)
  obtain u where p1: "after demo_cfg two_writes (boot init_ok True True blank_world) = Some u"
    and u: "u = the (after demo_cfg two_writes (boot init_ok True True blank_world))"
    by (simp add: eval_simps)
  have h2: "events_fetched ?penv 0 UV_READABLE u ([?a] @ ?b # [])"
    "uv_queue_work_rv ?penv = (\<lambda>r. 0)" "\<not> closing (f u)"
    "\<forall>e \<in> set [?a]. w_cb (wreq u (ev_data e)) \<noteq> 0 \<and> \<not> would_block demo_cfg e"
    "would_block demo_cfg ?b" "pool u = []" "write_queue (f u) = [1, 2]"
    unfolding u by (simp_all add: eval_simps)
  obtain c where c1: "after demo_cfg (two_writes @ [Call_close 0 9])
      (boot init_ok True True blank_world) = Some c"
    and c: "c = the (after demo_cfg (two_writes @ [Call_close 0 9])
      (boot init_ok True True blank_world))"
    by (simp add: eval_simps)
  have h3: "events_fetched ?cenv 0 UV_READABLE c [?b, ?a]" "uv_queue_work_rv ?cenv = (\<lambda>r. 0)"
    "closing (f c)" "\<forall>e \<in> set [?b, ?a]. w_cb (wreq c (ev_data e)) \<noteq> 0" "pool c = []"
    unfolding c by (simp_all add: eval_simps)
  note t = would_block_falls_back [where w = w and req = 1 and bufs = 64 and n = 1
      and cfg = demo_cfg and env = submit_again and offset = 0 and cb = 7
      and penv = ?penv and m = UV_READABLE and u = u and pre = "[?a]" and ev = ?b
      and post = "[]" and cenv = ?cenv and c = c and evs = "[?b, ?a]"
      and v = ?v and r = 1 and wenv = work_ok and wev = "\<lparr>ev_data = 1, ev_res = 4096\<rparr>"]
  from t h1(1-6) obtain w'' where "uvFileWrite demo_cfg submit_again 1 64 1 0 7 w = Inr (0, w'')"
    "pool w'' = pool w @ [Write_work 1]" "kaio w'' = kaio w"
    "write_queue (f w'') = write_queue (f w) @ [1]" "blocking_iocb (w_iocb (wreq w'' 1))"
    by blast
  with u1 h1(7-9) have k1: "pool w' = [Write_work 1]" "kaio w' = []" "write_queue (f w') = [1]"
    "blocking_iocb (w_iocb (wreq w' 1))"
    by simp_all
  from t h2(1-5) obtain u' where k2: "writePollCb demo_cfg ?penv 0 UV_READABLE u = Inr u'"
    "pool u' = pool u @ [Write_work (ev_data ?b)]"
    "cb_ids (new_events u u') = map ev_data [?a]"
    "ev_data ?b \<in> set (write_queue (f u)) \<and> ev_data ?b \<notin> set (map ev_data [?a]) \<longrightarrow>
               ev_data ?b \<in> set (write_queue (f u'))"
    "blocking_iocb (w_iocb (wreq u' (ev_data ?b)))"
    by blast
  from k2(2-5) h2(6,7) have k2': "pool u' = [Write_work 1]" "cb_ids (new_events u u') = [2]"
    "1 \<in> set (write_queue (f u'))" "blocking_iocb (w_iocb (wreq u' 1))"
    by simp_all
  from t h3(1-4) obtain c' where k3: "writePollCb demo_cfg ?cenv 0 UV_READABLE c = Inr c'"
    "pool c' = pool c" "cb_ids (new_events c c') = map ev_data [?b, ?a]"
    "cb_statuses (new_events c c') = map (\<lambda>e. UV_ECANCELED) [?b, ?a]"
    by blast
  from k3(2-4) h3(5) have k3': "pool c' = []" "cb_ids (new_events c c') = [1, 2]"
    "cb_statuses (new_events c c') = [UV_ECANCELED, UV_ECANCELED]"
    by simp_all
  from t h4(1-5) obtain va vb where k4: "writeWorkCb work_ok 1 ?v = Inr va"
    "submissions (new_events ?v va) = [w_iocb (wreq ?v 1)]"
    "writeAfterWorkCb 0 1 va = Inr vb" "cb_ids (new_events ?v vb) = [1]"
    "cb_statuses (new_events ?v vb) =
       [if closing (f ?v) then UV_ECANCELED else ev_res \<lparr>ev_data = 1, ev_res = 4096\<rparr>]"
    by blast
  from k4(2,5) h4(6,7) have k4': "submissions (new_events ?v va) = [w_iocb (wreq w' 1)]"
    "cb_statuses (new_events ?v vb) = [4096]"
    by simp_all
  have e2: "events_fetched ?penv 0 UV_READABLE u [?a, ?b]"
    using h2(1) by simp
  show ?thesis
    apply (rule exI [of _ w], rule exI [of _ w'], rule exI [of _ u], rule exI [of _ u'])
    apply (rule exI [of _ c], rule exI [of _ c'], rule exI [of _ va], rule exI [of _ vb])
    using w1 h1(1) u1 k1 p1 e2 k2(1) k2' c1 h3(3) k3(1) k3' k4(1) k4'(1) k4(3,4) k4'(2)
    by (intro conjI)
qed

text \<open>
  C3, the claim as stated fails for EOPNOTSUPP: \<open>uvFileWrite\<close> has \<open>assert(0)\<close> in that
  case of the switch, so the request is not handed to the thread pool.
\<close>

theorem unsupported_nowait_aborts:
  "uvFileWrite demo_cfg \<lparr>submit_rv = - 1, submit_errno = EOPNOTSUPP, write_queue_work_rv = 0\<rparr>
     1 64 1 0 7 ready_world = Inl Assert_failed"
  by (simp add: eval_simps)

subsection \<open>Durable writes\<close>

text \<open>
  C6, as amended. In every world a run reaches from a start: every \<open>open\<close> made for the
  handle has the flags \<open>open_flags\<close>, which include \<open>O_DSYNC\<close> when \<open>RWF_DSYNC\<close> is not
  defined; when it is defined, every request handed to \<open>io_submit\<close>, by \<open>uvFileWrite\<close> or by
  a worker after the fall back, carries \<open>RWF_DSYNC\<close>; and every request handed to
  \<open>io_submit\<close> has the buffers, their number and the offset of a call of \<open>uvFileWrite\<close> in
  the run, as the caller passed them: nothing is aligned or checked. When the handle asks
  for direct I/O, a create request that ends with status 0 has switched the file
  descriptor to direct I/O as its last step.
\<close>

theorem submissions_durable_as_passed:
  assumes "boot ienv d a w0 = Some w1" and "run cfg as w1 = Some w"
  shows "(\<forall>fl \<in> set (opens (trace w)). fl = open_flags cfg) \<and>
         (\<not> has_RWF_DSYNC cfg \<longrightarrow> dsync_open cfg) \<and>
         (has_RWF_DSYNC cfg \<longrightarrow> (\<forall>k \<in> set (submissions (trace w)). dsync_request k)) \<and>
         (\<forall>k \<in> set (submissions (trace w)). iocb_args k \<in> set (write_calls as)) \<and>
         (direct (f x) \<and> createWorkCb cfg cenv x = Inr x' \<and> c_status (creq x') = 0 \<and>
          (fsync_rv cenv = - 1 \<longrightarrow> fsync_errno cenv \<noteq> 0) \<longrightarrow>
            last (new_events x x') = Os_SetDirectIO (fd (f x)))"
proof -
  note i = inv_boot [OF assms(1)]
  note c = boot_clean [OF assms(1)]
  have "requests_ok cfg (set (write_calls as)) w1"
    using c by (simp add: requests_ok_def)
  from run_more(3) [OF i assms(2) this]
  have ok: "\<forall>k \<in> set (submissions (trace w)). request_ok cfg (set (write_calls as)) k"
    by (simp add: requests_ok_def)
  from run_more(2) [OF i assms(2)] c
  have "\<forall>fl \<in> set (opens (trace w)). fl = open_flags cfg"
    by auto
  moreover have "\<not> has_RWF_DSYNC cfg \<longrightarrow> dsync_open cfg"
    using open_flags_dsync by blast
  moreover have "has_RWF_DSYNC cfg \<longrightarrow> (\<forall>k \<in> set (submissions (trace w)). dsync_request k)"
    using ok by (simp add: request_ok_def)
  moreover have "\<forall>k \<in> set (submissions (trace w)). iocb_args k \<in> set (write_calls as)"
    using ok by (simp add: request_ok_def)
  moreover have "last (new_events x x') = Os_SetDirectIO (fd (f x))"
    if "direct (f x)" "createWorkCb cfg cenv x = Inr x'" "c_status (creq x') = 0"
      "fsync_rv cenv = - 1 \<longrightarrow> fsync_errno cenv \<noteq> 0"
    using createWorkCb_ok(1) [OF that(2,3,4)] that(1) by (simp add: new_events_def)
  ultimately show ?thesis by blast
qed

theorem submissions_durable_as_passed_witness:
  "\<exists>w x'. boot init_ok True True blank_world = Some started_world \<and>
     run demo_cfg fall_back_run started_world = Some w \<and>
     opens (trace w) = [O_WRONLY OR O_CREAT OR O_EXCL] \<and> has_RWF_DSYNC demo_cfg \<and>
     map iocb_args (submissions (trace w)) = [(1, 64, 1, 0), (1, 64, 1, 0), (2, 65, 1, 4096)] \<and>
     map aio_rw_flags (submissions (trace w)) = [11, 3, 11] \<and>
     list_all dsync_request (submissions (trace w)) \<and>
     write_calls fall_back_run = [(1, 64, 1, 0), (2, 65, 1, 4096)] \<and>
     direct (f creating_world) \<and> createWorkCb demo_cfg create_ok creating_world = Inr x' \<and>
     c_status (creq x') = 0 \<and> last (new_events creating_world x') = Os_SetDirectIO 6"
proof -
  note b = boot_started
  obtain w where r: "run demo_cfg fall_back_run started_world = Some w"
    and w: "w = the (run demo_cfg fall_back_run started_world)"
    by (simp add: eval_simps started_world_def)
  have t: "opens (trace w) = [O_WRONLY OR O_CREAT OR O_EXCL]"
    "map iocb_args (submissions (trace w)) = [(1, 64, 1, 0), (1, 64, 1, 0), (2, 65, 1, 4096)]"
    "map aio_rw_flags (submissions (trace w)) = [11, 3, 11]"
    unfolding w by (simp_all add: eval_simps started_world_def)
  have c: "write_calls fall_back_run = [(1, 64, 1, 0), (2, 65, 1, 4096)]"
    "has_RWF_DSYNC demo_cfg" "open_flags demo_cfg = O_WRONLY OR O_CREAT OR O_EXCL"
    by (simp_all add: eval_simps)
  obtain x' where x: "createWorkCb demo_cfg create_ok creating_world = Inr x'"
    "c_status (creq x') = 0"
    by (simp add: eval_simps)
  have x': "direct (f creating_world)" "fsync_rv create_ok = - 1 \<longrightarrow> fsync_errno create_ok \<noteq> 0"
    "fd (f creating_world) = 6"
    by (simp_all add: eval_simps)
  from submissions_durable_as_passed [OF b r, of creating_world create_ok x'] b r t c x x'
  show ?thesis by (auto simp: list_all_iff)
qed

text \<open>
  C6, the claim as stated fails for the aligned buffers: on a handle with direct I/O,
  whose file descriptor the create request has switched to direct I/O, \<open>uvFileWrite\<close>
  at offset 3 is accepted and the request is handed to \<open>io_submit\<close> with the buffers and
  the offset 3 as they were passed; 3 is not a multiple of a block size of 512 bytes.
\<close>

theorem unaligned_write_submitted:
  "switched_direct (after demo_cfg unaligned_write (boot init_ok True True blank_world))
     = Some (True, True) \<and>
   in_flight (after demo_cfg unaligned_write (boot init_ok True True blank_world))
     = Some ([1], [1], [], []) \<and>
   submitted (after demo_cfg unaligned_write (boot init_ok True True blank_world))
     = Some [(1, 64, 1, 3)] \<and>
   aligned_to 512 (after demo_cfg unaligned_write (boot init_ok True True blank_world))
     = Some False"
  by (simp add: eval_simps)

subsection \<open>The events fetched by writePollCb\<close>

text \<open>
  C8. What \<open>writePollCb\<close> does when the first of two fetched events has the result
  \<open>- EAGAIN\<close>: requests 1 and 2 are with the kernel; the kernel reports
  \<open>- EAGAIN\<close> for 1 and 4096 bytes written for 2; request 1 is queued for the thread pool
  and the function returns from inside the loop. Request 2 is still in the write queue,
  neither the kernel nor the thread pool holds it any more, and no callback was invoked.
\<close>

theorem later_events_dropped_after_EAGAIN:
  "in_flight (after demo_cfg two_writes (boot init_ok True True blank_world))
     = Some ([1, 2], [1, 2], [], []) \<and>
   in_flight (after demo_cfg
      (two_writes @
       [Poll_ready 8 0 [Ge_events [\<lparr>ev_data = 1, ev_res = - EAGAIN\<rparr>,
                                   \<lparr>ev_data = 2, ev_res = 4096\<rparr>]]])
      (boot init_ok True True blank_world)) = Some ([1, 2], [], [Write_work 1], []) \<and>
   callbacks (after demo_cfg
      (two_writes @
       [Poll_ready 8 0 [Ge_events [\<lparr>ev_data = 1, ev_res = - EAGAIN\<rparr>,
                                   \<lparr>ev_data = 2, ev_res = 4096\<rparr>]]])
      (boot init_ok True True blank_world)) = Some ([], [])"
  by (simp add: eval_simps)

subsection \<open>Adding a server\<close>

text \<open>
  C9. For a configuration of N voters and a new nonzero id, add-server gives a
  configuration of N + 1 servers: the N servers as before, and last, at index N, the
  server with the new id, whose role is non-voter.
\<close>

theorem add_server_appends_non_voter:
  assumes "length c = N" and "\<forall>s \<in> set c. server_role s = Voter"
    and "i \<noteq> 0" and "i \<notin> set (map server_id c)"
  shows "\<exists>c'. add_server i a c = Inr c' \<and> length c' = N + 1 \<and> take N c' = c \<and>
           server_id (last c') = i \<and> server_role (last c') = Non_voter \<and>
           server_id (c' ! N) = i"
  using assms by (simp add: add_server_def configuration_add_def nth_append)

theorem add_server_appends_non_voter_witness:
  "\<exists>c'. add_server 4 ''4'' three_voters = Inr c' \<and> length c' = 4 \<and> take 3 c' = three_voters \<and>
     server_id (last c') = 4 \<and> server_role (last c') = Non_voter \<and> server_id (c' ! 3) = 4"
proof -
  have "length three_voters = 3" "\<forall>s \<in> set three_voters. server_role s = Voter"
    "(4 :: 64 word) \<noteq> 0" "(4 :: 64 word) \<notin> set (map server_id three_voters)"
    by (simp_all add: three_voters_def)
  from add_server_appends_non_voter [OF this, of "''4''"] show ?thesis by simp
qed

subsection \<open>Creating a segment file\<close>

text \<open>
  C5. A create request runs \<open>createWorkCb\<close> on a worker thread and then \<open>createAfterWorkCb\<close>
  on the loop. When it ends with status 0, the calls made for it are, in this order:
  \<open>posix_fallocate\<close> of the requested size on the file, \<open>fsync\<close> of the file, the sync of
  the directory of the path, the switch to direct I/O when the handle asks for it, and
  only then the start of the poller and the create callback with status 0. The handle
  is READY only afterwards: before, it is CREATING and \<open>uvFileWrite\<close> on it fails its
  assertion, so no write precedes the preallocation. (\<open>fsync\<close> is taken to set a nonzero
  errno when it fails.)
\<close>

theorem create_preallocates_then_syncs:
  assumes "and_then (createWorkCb cfg env w) (createAfterWorkCb prv st) = Inr w2"
    and "c_status (creq w2) = 0"
    and "fsync_rv env = - 1 \<longrightarrow> fsync_errno env \<noteq> 0"
  shows "trace w2 = trace w @
           [Sys_posix_fallocate (fd (f w)) 0 (c_size (creq w)), Sys_fsync (fd (f w)),
            Os_SyncDir (osDirname cfg (c_path (creq w)))] @
           (if direct (f w) then [Os_SetDirectIO (fd (f w))] else []) @
           [Uv_poll_start] @ (if c_cb (creq w) \<noteq> 0 then [Create_cb 0] else [])
         \<and> state (f w) = CREATING \<and> state (f w2) = READY
         \<and> uvFileWrite cfg wenv req bufs n offset cb w = Inl Assert_failed"
proof -
  from assms(1) obtain w1 where w1: "createWorkCb cfg env w = Inr w1"
    and w2: "createAfterWorkCb prv st w1 = Inr w2"
    by (auto simp: and_then_Inr)
  have "c_status (creq w1) = 0"
    using w2 assms(2)
    by (auto simp: createAfterWorkCb_def maybeClosed_def Let_def emit_def create_status_def
        UV_ECANCELED_def split: if_splits)
  note a = createWorkCb_ok [OF w1 this assms(3)]
  note b = createAfterWorkCb_ok [OF w2 assms(2)]
  have "state (f w) \<noteq> READY"
    using a(3) by (simp add: CREATING_def READY_def)
  then show ?thesis
    using a b by (simp add: uvFileWrite_needs_READY)
qed

theorem create_preallocates_then_syncs_witness:
  "\<exists>w2. and_then (createWorkCb demo_cfg create_ok creating_world) (createAfterWorkCb 0 0) = Inr w2
     \<and> trace w2 = [Sys_posix_fallocate 6 0 4096, Sys_fsync 6, Os_SyncDir ''/data'',
          Os_SetDirectIO 6, Uv_poll_start, Create_cb 0]
     \<and> state (f w2) = READY"
proof -
  obtain w2 where run:
    "and_then (createWorkCb demo_cfg create_ok creating_world) (createAfterWorkCb 0 0) = Inr w2"
    and ok: "c_status (creq w2) = 0"
    by (simp add: and_then_def createWorkCb_def createAfterWorkCb_def maybeClosed_def Let_def
        emit_def create_status_def creating_world_def create_ok_def
        CREATING_def READY_def CLOSED_def)
  have "fsync_rv create_ok = - 1 \<longrightarrow> fsync_errno create_ok \<noteq> 0"
    by (simp add: create_ok_def)
  from create_preallocates_then_syncs [OF run ok this] run show ?thesis
    by (simp add: creating_world_def demo_cfg_def)
qed

subsection \<open>raft_leader\<close>

text \<open>
  C10. \<open>raft_leader\<close> gives the node's own id and address when the node is the leader,
  the id and address of the leader the node currently knows when it is a follower, and
  id 0 with a NULL address when it is a candidate or unavailable.
\<close>

theorem raft_leader_by_state:
  "(raft_state r = RAFT_LEADER \<longrightarrow> raft_leader r = (raft_id r, raft_address r)) \<and>
   (raft_state r = RAFT_FOLLOWER \<longrightarrow>
      raft_leader r = (leader_id (follower_state_current_leader r),
                       leader_address (follower_state_current_leader r))) \<and>
   (raft_state r = RAFT_CANDIDATE \<or> raft_state r = RAFT_UNAVAILABLE \<longrightarrow>
      raft_leader r = (0, None))"
  by (cases "raft_state r") (simp_all add: raft_leader_def)

theorem raft_leader_by_state_witness:
  "raft_leader leader_node = (1, Some ''1'') \<and> raft_leader follower_node = (1, Some ''1'') \<and>
   raft_leader candidate_node = (0, None)"
  using raft_leader_by_state [of leader_node] raft_leader_by_state [of follower_node]
    raft_leader_by_state [of candidate_node]
  by (simp add: leader_node_def follower_node_def candidate_node_def)

end
